theory Spec2Isabelle
  imports Complex_Main "HOL-Library.Multiset" "HOL-Library.Sublist"
begin

section \<open>Numbers\<close>

text \<open>
  The scanner computes on JavaScript numbers. Prices, volumes and rates are modelled as
  exact reals: rounding and overflow of IEEE doubles are outside this model (sums of
  prices near the largest double would overflow to \<open>Infinity\<close>). The one
  non-finite value the indicator code can produce from finite prices is \<open>NaN\<close>, from the
  division \<open>0 / 0\<close> when the smoothing period is zero; it is kept as a value of its own,
  with the comparison rules of the language (every ordering test against \<open>NaN\<close> is false).
\<close>

datatype jsnum = NaN | Num real

fun js_lt :: "jsnum \<Rightarrow> real \<Rightarrow> bool" where
  "js_lt NaN y = False"
| "js_lt (Num x) y = (x < y)"

fun js_ge :: "jsnum \<Rightarrow> real \<Rightarrow> bool" where
  "js_ge NaN y = False"
| "js_ge (Num x) y = (y \<le> x)"

section \<open>Indicator: calculateRSI\<close>

text \<open>
  The first loop of \<open>calculateRSI\<close>, one iteration: the difference of two neighbouring
  closes is added to the gains when it is not negative, and its absolute value to the
  losses otherwise. The pair is (gains, losses).
\<close>

definition accumulate :: "real list \<Rightarrow> nat \<Rightarrow> real \<times> real \<Rightarrow> real \<times> real" where
  "accumulate closes i gl =
     (let diff = closes ! i - closes ! (i - 1)
      in if diff \<ge> 0 then (fst gl + diff, snd gl) else (fst gl, snd gl + \<bar>diff\<bar>))"

text \<open>
  The second loop, one iteration: the running averages (avgGain, avgLoss) are smoothed
  with the current gain and the current loss.
\<close>

definition smooth :: "real list \<Rightarrow> nat \<Rightarrow> nat \<Rightarrow> real \<times> real \<Rightarrow> real \<times> real" where
  "smooth closes period i avg =
     (let diff = closes ! i - closes ! (i - 1);
          currentGain = (if diff > 0 then diff else 0);
          currentLoss = (if diff < 0 then \<bar>diff\<bar> else 0)
      in ((fst avg * (real period - 1) + currentGain) / real period,
          (snd avg * (real period - 1) + currentLoss) / real period))"

text \<open>
  \<open>calculateRSI(closes, period)\<close>. The period is a count (the scanner passes 6). Every
  index the loops read lies inside the list once the length test has passed. With
  \<open>period = 0\<close> the first average is \<open>0 / 0\<close>, which is \<open>NaN\<close> and stays \<open>NaN\<close> through the
  smoothing, the test \<open>avgLoss === 0\<close> and the final formula; with a positive period no
  division by zero occurs (the last one is guarded by the test on avgLoss, and
  \<open>1 + rs\<close> is at least 1).
\<close>

definition calculateRSI :: "real list \<Rightarrow> nat \<Rightarrow> jsnum" where
  "calculateRSI closes period =
     (if length closes < period + 1 then Num 0
      else if period = 0 then NaN
      else
        let gl = fold (accumulate closes) [1..<period + 1] (0, 0);
            avg0 = (fst gl / real period, snd gl / real period);
            avg = fold (smooth closes period) [period + 1..<length closes] avg0;
            avgGain = fst avg;
            avgLoss = snd avg
        in if avgLoss = 0 then Num 100
           else let rs = avgGain / avgLoss in Num (100 - 100 / (1 + rs)))"

section \<open>Rank map\<close>

text \<open>
  An entry of the product feed, with the fields the scanner reads: \<open>b\<close> (base asset),
  \<open>q\<close> (quote asset), \<open>c\<close> (last price) and \<open>cs\<close> (circulating supply). The two numeric
  fields hold the number \<open>parseFloat\<close> reads from them; \<open>None\<close> stands for a field that is
  missing, null or not a number, all of which fail the tests \<open>item.cs\<close>, \<open>price > 0\<close> or
  \<open>cs > 0\<close> of the source.
\<close>

record product =
  prod_b :: string
  prod_q :: string
  prod_c :: "real option"
  prod_cs :: "real option"

record mcap_entry =
  base :: string
  mcap :: real

text \<open>The body of \<open>productList.forEach\<close>: a qualifying entry is pushed onto the list.\<close>

definition collect_mcap :: "product \<Rightarrow> mcap_entry list \<Rightarrow> mcap_entry list" where
  "collect_mcap item acc =
     (if prod_q item = ''USDT'' then
        (case prod_cs item of
           None \<Rightarrow> acc
         | Some cs \<Rightarrow>
             let price = (case prod_c item of None \<Rightarrow> 0 | Some p \<Rightarrow> p)
             in if price > 0 \<and> cs > 0
                then acc @ [\<lparr>base = prod_b item, mcap = price * cs\<rparr>]
                else acc)
      else acc)"

definition mcapList :: "product list \<Rightarrow> mcap_entry list" where
  "mcapList items = fold collect_mcap items []"

text \<open>
  \<open>mcapList.sort((a, b) => b.mcap - a.mcap)\<close>: the sort of the language is stable and the
  comparison orders by market cap, largest first, so the result is the stable sort on
  the negated market cap.
\<close>

definition sorted_mcapList :: "product list \<Rightarrow> mcap_entry list" where
  "sorted_mcapList items = sort_key (\<lambda>e. - mcap e) (mcapList items)"

text \<open>
  \<open>mcapList.forEach((item, index) => { if (!rankMap[item.base]) rankMap[item.base] = index + 1 })\<close>.
  The test \<open>!rankMap[...]\<close> holds for a missing key and for the value 0. The object
  \<open>rankMap\<close> is read as a finite map from base assets to ranks: a base asset is a ticker
  such as BTC, not the name of a property that every object inherits.
\<close>

fun assign_ranks :: "mcap_entry list \<Rightarrow> nat \<Rightarrow> (string \<rightharpoonup> nat) \<Rightarrow> (string \<rightharpoonup> nat)" where
  "assign_ranks [] index ranks = ranks"
| "assign_ranks (item # rest) index ranks =
     assign_ranks rest (index + 1)
       (case ranks (base item) of
          None \<Rightarrow> ranks(base item \<mapsto> index + 1)
        | Some r \<Rightarrow> if r = 0 then ranks(base item \<mapsto> index + 1) else ranks)"

definition rankMap :: "product list \<Rightarrow> (string \<rightharpoonup> nat)" where
  "rankMap items = assign_ranks (sorted_mcapList items) 0 Map.empty"

text \<open>A small product feed, used to run the rank map on concrete data.\<close>

definition example_feed :: "product list" where
  "example_feed =
     [\<lparr>prod_b = ''ETH'', prod_q = ''USDT'', prod_c = Some 10, prod_cs = Some 50\<rparr>,
      \<lparr>prod_b = ''BTC'', prod_q = ''USDT'', prod_c = Some 1, prod_cs = Some 3\<rparr>,
      \<lparr>prod_b = ''BTC'', prod_q = ''USDT'', prod_c = Some 100, prod_cs = Some 10\<rparr>,
      \<lparr>prod_b = ''XRP'', prod_q = ''BTC'', prod_c = Some 100, prod_cs = Some 1000\<rparr>,
      \<lparr>prod_b = ''DOGE'', prod_q = ''USDT'', prod_c = Some 100, prod_cs = None\<rparr>]"

section \<open>Rank resolution\<close>

text \<open>
  \<open>s.replace(pat, rep)\<close> with a string pattern: the first occurrence of the pattern,
  scanning from the left, is replaced; a string without the pattern is unchanged.
\<close>

fun js_replace :: "string \<Rightarrow> string \<Rightarrow> string \<Rightarrow> string" where
  "js_replace [] pat rep = (if pat = [] then rep else [])"
| "js_replace (x # xs) pat rep =
     (if prefix pat (x # xs) then rep @ drop (length pat) (x # xs)
      else x # js_replace xs pat rep)"

datatype rank_value = Rank nat | NA

text \<open>
  The rank expression of \<open>processSymbol\<close>. The operator \<open>||\<close> takes its right operand
  when the left one is undefined, the empty string or 0, and \<open>!r\<close> holds for undefined
  and for 0.
\<close>

definition resolve_rank :: "(string \<rightharpoonup> string) \<Rightarrow> (string \<rightharpoonup> nat) \<Rightarrow> string \<Rightarrow> rank_value" where
  "resolve_rank bases ranks smb =
     (let bs = (case bases smb of
                  None \<Rightarrow> js_replace smb ''USDT'' []
                | Some a \<Rightarrow> if a = [] then js_replace smb ''USDT'' [] else a);
          r = ranks bs;
          r' = (if (r = None \<or> r = Some 0) \<and> prefix ''1000'' bs then ranks (drop 4 bs) else r)
      in case r' of None \<Rightarrow> NA | Some n \<Rightarrow> if n = 0 then NA else Rank n)"

text \<open>
  Rank resolution in the words of the specification: the base asset is the entry of the
  base-asset map or, without one, the symbol with its quote suffix stripped; an absent
  base asset with the prefix 1000 is retried without the prefix.
\<close>

definition strip_suffix :: "string \<Rightarrow> string \<Rightarrow> string" where
  "strip_suffix suf s = (if suffix suf s then take (length s - length suf) s else s)"




section \<open>Configuration and caches\<close>

record config =
  minVolume :: real
  rsiLimit :: nat
  concurrency :: nat
  cacheTTL :: int
  rankCacheTTL :: int

definition CONFIG :: config where
  "CONFIG = \<lparr>minVolume = 0, rsiLimit = 35, concurrency = 40, cacheTTL = 60000,
             rankCacheTTL = 3600000\<rparr>"

text \<open>
  \<open>CACHE.products\<close>. Its data field starts as the object literal \<open>{}\<close> and holds the array
  of the last successful fetch afterwards.
\<close>

datatype 'a js_data = EmptyObject | Array "'a list"

record products_cache =
  products_data :: "product js_data"
  products_timestamp :: int

text \<open>
  What the product endpoint answers when asked: the fetch or the JSON parsing throws, or
  a payload arrives with its \<open>success\<close> flag and its \<open>data\<close> field (\<open>None\<close> when the
  field is missing or null).
\<close>

datatype product_response = Throws | Payload bool "product list option"

text \<open>
  \<open>fetchProductData\<close>, with the time \<open>Date.now()\<close> reads and the answer of the endpoint as
  arguments; the result is the returned value and the cache. An object and an array are
  both truthy, so \<open>CACHE.products.data || []\<close> is \<open>CACHE.products.data\<close>; \<open>{}.length\<close> is
  undefined, and \<open>undefined > 0\<close> is false.
\<close>

definition products_fresh :: "config \<Rightarrow> int \<Rightarrow> products_cache \<Rightarrow> bool" where
  "products_fresh cfg now cache =
     (case products_data cache of
        EmptyObject \<Rightarrow> False
      | Array items \<Rightarrow> length items > 0 \<and> now - products_timestamp cache < rankCacheTTL cfg)"

definition fetchProductData ::
  "config \<Rightarrow> int \<Rightarrow> product_response \<Rightarrow> products_cache \<Rightarrow> product js_data \<times> products_cache" where
  "fetchProductData cfg now response cache =
     (if products_fresh cfg now cache then (products_data cache, cache)
      else
        (case response of
           Throws \<Rightarrow> (products_data cache, cache)
         | Payload success d \<Rightarrow>
             (case d of
                None \<Rightarrow> (Array [], cache)
              | Some items \<Rightarrow>
                  if success
                  then (Array items, \<lparr>products_data = Array items, products_timestamp = now\<rparr>)
                  else (Array [], cache))))"

section \<open>Market data\<close>

text \<open>
  What one scan cycle has after its five metadata fetches have settled: the active symbols
  and their base assets (\<open>fetchExchangeInfo\<close>), the 24h statistics (\<open>fetch24hTicker\<close>),
  the funding rates and intervals, and the value \<open>fetchProductData\<close> returned.
\<close>

record ticker =
  lastPrice :: real
  quoteVolume :: real
  priceChangePercent :: real

record metadata =
  symbols :: "string list"
  baseMap :: "string \<rightharpoonup> string"
  stats :: "string \<rightharpoonup> ticker"
  fundingMap :: "string \<rightharpoonup> real"
  fundingIntervals :: "string \<rightharpoonup> nat"
  productList :: "product js_data"

text \<open>\<open>stats[s]?.volume || 0\<close> and \<open>stats[s]?.priceChangePercent || 0\<close>.\<close>

definition volume_of :: "metadata \<Rightarrow> string \<Rightarrow> real" where
  "volume_of md s = (case stats md s of None \<Rightarrow> 0 | Some t \<Rightarrow> quoteVolume t)"

definition change_of :: "metadata \<Rightarrow> string \<Rightarrow> real" where
  "change_of md s = (case stats md s of None \<Rightarrow> 0 | Some t \<Rightarrow> priceChangePercent t)"

text \<open>
  The candidates: the symbols at or above the volume floor, sorted by 24h price change,
  largest first (a stable sort, as for the market caps).
\<close>

definition highVolumeSymbols :: "config \<Rightarrow> metadata \<Rightarrow> string list" where
  "highVolumeSymbols cfg md =
     sort_key (\<lambda>s. - change_of md s) (filter (\<lambda>s. volume_of md s \<ge> minVolume cfg) (symbols md))"

section \<open>Candle cache and fetchKlines\<close>

text \<open>
  \<open>CACHE.klines\<close> maps the key \<open>symbol_interval\<close> to the closes and the time of their
  fetch. Two logs are added to observe the data client: every invocation of
  \<open>fetchKlines\<close>, and every request it sends to the network.
\<close>

record kline_entry =
  data :: "real list"
  timestamp :: int

type_synonym request = "string \<times> string \<times> nat \<times> int"

record kstate =
  klines :: "string \<rightharpoonup> kline_entry"
  calls :: "(string \<times> string) list"
  requests :: "request list"

text \<open>
  The world outside: the answer of the candle endpoint to a request (symbol, interval,
  limit and the cache-busting time \<open>t\<close>), with \<open>None\<close> for a fetch or a parse that throws,
  and the clock, as the time the n-th invocation of \<open>fetchKlines\<close> reads from
  \<open>Date.now()\<close>.
\<close>

record environment =
  net :: "request \<Rightarrow> real list option"
  clock :: "nat \<Rightarrow> int"

definition cacheKey :: "string \<Rightarrow> string \<Rightarrow> string" where
  "cacheKey smb itv = smb @ ''_'' @ itv"

text \<open>
  \<open>fetchKlines\<close> suspends once, at the network. Its first half runs when it is called:
  it reads the clock and the cache and either returns the cached closes or sends the
  request. Its second half runs when the answer has arrived: it stores the closes under
  the time read at the call, or returns the empty list after a failure.
\<close>

datatype pending = Hit "real list" | Miss int

definition fetchKlines_begin ::
  "config \<Rightarrow> environment \<Rightarrow> string \<Rightarrow> string \<Rightarrow> nat \<Rightarrow> kstate \<Rightarrow> pending \<times> kstate" where
  "fetchKlines_begin cfg e smb itv limit st =
     (let now = clock e (length (calls st));
          st' = st\<lparr>calls := calls st @ [(smb, itv)]\<rparr>;
          sent = st'\<lparr>requests := requests st' @ [(smb, itv, limit, now)]\<rparr>
      in case klines st (cacheKey smb itv) of
           None \<Rightarrow> (Miss now, sent)
         | Some en \<Rightarrow>
             if now - timestamp en < cacheTTL cfg then (Hit (data en), st')
             else (Miss now, sent))"

definition fetchKlines_resume ::
  "environment \<Rightarrow> string \<Rightarrow> string \<Rightarrow> nat \<Rightarrow> pending \<Rightarrow> kstate \<Rightarrow> real list \<times> kstate" where
  "fetchKlines_resume e smb itv limit p st =
     (case p of
        Hit closePrices \<Rightarrow> (closePrices, st)
      | Miss now \<Rightarrow>
          (case net e (smb, itv, limit, now) of
             None \<Rightarrow> ([], st)
           | Some closePrices \<Rightarrow>
               (closePrices,
                st\<lparr>klines := (klines st)(cacheKey smb itv \<mapsto>
                      \<lparr>data = closePrices, timestamp = now\<rparr>)\<rparr>)))"

definition fetchKlines ::
  "config \<Rightarrow> environment \<Rightarrow> string \<Rightarrow> string \<Rightarrow> nat \<Rightarrow> kstate \<Rightarrow> real list \<times> kstate" where
  "fetchKlines cfg e smb itv limit st =
     (let (p, st') = fetchKlines_begin cfg e smb itv limit st
      in fetchKlines_resume e smb itv limit p st')"

section \<open>processSymbol\<close>

record scan_result =
  symbol :: string
  volume :: real
  funding :: real
  interval :: nat
  rank :: rank_value
  rsi1h :: jsnum
  rsi4h :: jsnum

text \<open>The object \<open>processSymbol\<close> returns for a match.\<close>

definition make_result ::
  "metadata \<Rightarrow> (string \<rightharpoonup> nat) \<Rightarrow> string \<Rightarrow> jsnum \<Rightarrow> jsnum \<Rightarrow> scan_result" where
  "make_result md ranks smb r1 r4 =
     \<lparr>symbol = smb,
      volume = volume_of md smb,
      funding = (case fundingMap md smb of None \<Rightarrow> 0 | Some f \<Rightarrow> f),
      interval = (case fundingIntervals md smb of
                    None \<Rightarrow> 8 | Some h \<Rightarrow> if h = 0 then 8 else h),
      rank = resolve_rank (baseMap md) ranks smb,
      rsi1h = r1,
      rsi4h = r4\<rparr>"

text \<open>
  \<open>processSymbol\<close>, run without interruption: the 1h closes, the early exit, the 4h
  closes, the second test, the match. \<open>None\<close> is the \<open>null\<close> of the source.
\<close>

definition processSymbol ::
  "config \<Rightarrow> environment \<Rightarrow> metadata \<Rightarrow> (string \<rightharpoonup> nat) \<Rightarrow> string \<Rightarrow> kstate
   \<Rightarrow> scan_result option \<times> kstate" where
  "processSymbol cfg e md ranks smb st =
     (let (k1h, st1) = fetchKlines cfg e smb ''1h'' (rsiLimit cfg) st;
          r1 = calculateRSI k1h 6
      in if js_lt r1 90 then (None, st1)
         else
           let (k4h, st2) = fetchKlines cfg e smb ''4h'' (rsiLimit cfg) st1;
               r4 = calculateRSI k4h 6
           in if js_lt r4 80 then (None, st2)
              else (Some (make_result md ranks smb r1 r4), st2))"

section \<open>Worker pool\<close>

text \<open>
  The workers of \<open>updateData\<close> are asynchronous functions on one thread: a worker runs
  until it awaits, and another continuation runs only then. A worker is therefore always
  at one of its await points, with the values of its local variables: waiting for the
  1h closes of the candidate with index \<open>i\<close>, holding them, waiting for the 4h closes,
  holding them, or holding the value \<open>processSymbol\<close> returned. \<open>NotStarted\<close> is a worker
  that has not been called yet and \<open>Finished\<close> one whose loop has ended.
\<close>

datatype wstate =
    NotStarted
  | AwaitKlines1h nat pending
  | GotKlines1h nat "real list"
  | AwaitKlines4h nat jsnum pending
  | GotKlines4h nat jsnum "real list"
  | Returned nat "scan_result option"
  | Finished

text \<open>
  The variables the workers share: the candle cache (with the logs), \<open>index\<close>,
  \<open>completed\<close> and \<open>results\<close>. The list \<open>claimed\<close> is added to observe the indices the
  workers take from the cursor, in the order they take them.
\<close>

record pool =
  ks :: kstate
  index :: nat
  completed :: nat
  results :: "scan_result list"
  claimed :: "nat list"
  workers :: "wstate list"

text \<open>
  The head of the worker's loop, up to its first await: the test \<open>index < total\<close>, the
  read and increment of the cursor, and the call of \<open>processSymbol\<close>, which calls
  \<open>fetchKlines\<close> for the 1h closes at once.
\<close>

definition worker_loop :: "config \<Rightarrow> environment \<Rightarrow> string list \<Rightarrow> nat \<Rightarrow> pool \<Rightarrow> pool" where
  "worker_loop cfg e targets w s =
     (if index s < length targets then
        let currentIndex = index s;
            smb = targets ! currentIndex;
            (p, ks') = fetchKlines_begin cfg e smb ''1h'' (rsiLimit cfg) (ks s)
        in s\<lparr>ks := ks', index := currentIndex + 1, claimed := claimed s @ [currentIndex],
             workers := (workers s)[w := AwaitKlines1h currentIndex p]\<rparr>
      else s\<lparr>workers := (workers s)[w := Finished]\<rparr>)"

text \<open>
  One continuation of worker \<open>w\<close>: from its await point to the next one. \<open>processSymbol\<close>
  cannot throw here (\<open>fetchKlines\<close> catches every failure of the network), so the
  \<open>catch\<close> of the worker has no case of its own.
\<close>

definition resume ::
  "config \<Rightarrow> environment \<Rightarrow> metadata \<Rightarrow> (string \<rightharpoonup> nat) \<Rightarrow> string list \<Rightarrow> nat \<Rightarrow> pool \<Rightarrow> pool" where
  "resume cfg e md ranks targets w s =
     (if w < length (workers s) then
        (case workers s ! w of
           NotStarted \<Rightarrow> worker_loop cfg e targets w s
         | AwaitKlines1h i p \<Rightarrow>
             let (k1h, ks') = fetchKlines_resume e (targets ! i) ''1h'' (rsiLimit cfg) p (ks s)
             in s\<lparr>ks := ks', workers := (workers s)[w := GotKlines1h i k1h]\<rparr>
         | GotKlines1h i k1h \<Rightarrow>
             let r1 = calculateRSI k1h 6
             in if js_lt r1 90 then s\<lparr>workers := (workers s)[w := Returned i None]\<rparr>
                else
                  let (p, ks') =
                        fetchKlines_begin cfg e (targets ! i) ''4h'' (rsiLimit cfg) (ks s)
                  in s\<lparr>ks := ks', workers := (workers s)[w := AwaitKlines4h i r1 p]\<rparr>
         | AwaitKlines4h i r1 p \<Rightarrow>
             let (k4h, ks') = fetchKlines_resume e (targets ! i) ''4h'' (rsiLimit cfg) p (ks s)
             in s\<lparr>ks := ks', workers := (workers s)[w := GotKlines4h i r1 k4h]\<rparr>
         | GotKlines4h i r1 k4h \<Rightarrow>
             let r4 = calculateRSI k4h 6
             in s\<lparr>workers := (workers s)[w := Returned i
                      (if js_lt r4 80 then None
                       else Some (make_result md ranks (targets ! i) r1 r4))]\<rparr>
         | Returned i r \<Rightarrow>
             worker_loop cfg e targets w
               (s\<lparr>results := (case r of None \<Rightarrow> results s | Some x \<Rightarrow> results s @ [x]),
                  completed := completed s + 1\<rparr>)
         | Finished \<Rightarrow> s)
      else s)"

text \<open>
  \<open>Array(Math.min(CONCURRENCY, total)).fill(null).map(() => worker())\<close> calls the workers
  one after the other, each up to its first await. From then on the order in which the
  continuations run depends on the network; a schedule lists the workers in the order
  they are resumed.
\<close>

definition initial_pool :: "kstate \<Rightarrow> nat \<Rightarrow> pool" where
  "initial_pool st n =
     \<lparr>ks = st, index = 0, completed = 0, results = [], claimed = [],
      workers = replicate n NotStarted\<rparr>"

definition start_workers ::
  "config \<Rightarrow> environment \<Rightarrow> metadata \<Rightarrow> (string \<rightharpoonup> nat) \<Rightarrow> string list \<Rightarrow> kstate \<Rightarrow> pool" where
  "start_workers cfg e md ranks targets st =
     (let n = min (concurrency cfg) (length targets)
      in fold (resume cfg e md ranks targets) [0..<n] (initial_pool st n))"

definition run_pool ::
  "config \<Rightarrow> environment \<Rightarrow> metadata \<Rightarrow> (string \<rightharpoonup> nat) \<Rightarrow> string list \<Rightarrow> nat list \<Rightarrow> kstate
   \<Rightarrow> pool" where
  "run_pool cfg e md ranks targets schedule st =
     fold (resume cfg e md ranks targets) schedule (start_workers cfg e md ranks targets st)"

text \<open>\<open>Promise.all(workers)\<close> resolves when every worker has left its loop.\<close>

definition all_finished :: "pool \<Rightarrow> bool" where
  "all_finished s = list_all (\<lambda>w. w = Finished) (workers s)"

section \<open>The scan cycle\<close>

text \<open>\<open>matches.sort((a, b) => b.volume - a.volume)\<close>, the list given to \<open>renderTable\<close>.\<close>

definition matches :: "scan_result list \<Rightarrow> scan_result list" where
  "matches rs = sort_key (\<lambda>r. - volume r) rs"

text \<open>
  \<open>updateData\<close> from the settled metadata on. When \<open>productList\<close> is not an array,
  \<open>productList.forEach\<close> throws a TypeError, the outer \<open>catch\<close> reports it and nothing is
  rendered. Otherwise the candidates and the rank map are computed, the pool runs under
  the given schedule, and the sorted matches are rendered once every worker has
  finished; \<open>None\<close> is a schedule that ends before that.
\<close>

datatype failure = TypeError

definition updateData ::
  "config \<Rightarrow> environment \<Rightarrow> metadata \<Rightarrow> nat list \<Rightarrow> kstate \<Rightarrow> (failure + scan_result list) option" where
  "updateData cfg e md schedule st =
     (case productList md of
        EmptyObject \<Rightarrow> Some (Inl TypeError)
      | Array items \<Rightarrow>
          let targets = highVolumeSymbols cfg md;
              ranks = rankMap items;
              final = run_pool cfg e md ranks targets schedule st
          in if all_finished final then Some (Inr (matches (results final))) else None)"

section \<open>A fixed dataset\<close>

text \<open>
  A deterministic data source answers a request for the same symbol, interval and limit
  in the same way at every time. The closes it serves are then a function of symbol and
  interval (the empty list where the fetch fails), and a cache filled from it holds
  nothing else.
\<close>

definition fixed_dataset :: "environment \<Rightarrow> bool" where
  "fixed_dataset e =
     (\<forall>smb itv limit t t'. net e (smb, itv, limit, t) = net e (smb, itv, limit, t'))"

definition served :: "config \<Rightarrow> environment \<Rightarrow> string \<Rightarrow> string \<Rightarrow> real list" where
  "served cfg e smb itv =
     (case net e (smb, itv, rsiLimit cfg, 0) of None \<Rightarrow> [] | Some closes \<Rightarrow> closes)"

definition cache_agrees :: "config \<Rightarrow> environment \<Rightarrow> kstate \<Rightarrow> bool" where
  "cache_agrees cfg e st =
     (\<forall>smb itv en. (itv = ''1h'' \<or> itv = ''4h'') \<longrightarrow> klines st (cacheKey smb itv) = Some en \<longrightarrow>
        net e (smb, itv, rsiLimit cfg, 0) = Some (data en))"

definition qualifies :: "config \<Rightarrow> environment \<Rightarrow> string \<Rightarrow> bool" where
  "qualifies cfg e smb =
     (js_ge (calculateRSI (served cfg e smb ''1h'') 6) 90
      \<and> js_ge (calculateRSI (served cfg e smb ''4h'') 6) 80)"

definition expected_result ::
  "config \<Rightarrow> environment \<Rightarrow> metadata \<Rightarrow> (string \<rightharpoonup> nat) \<Rightarrow> string \<Rightarrow> scan_result option" where
  "expected_result cfg e md ranks smb =
     (if qualifies cfg e smb
      then Some (make_result md ranks smb
                   (calculateRSI (served cfg e smb ''1h'') 6)
                   (calculateRSI (served cfg e smb ''4h'') 6))
      else None)"

section \<open>Invariant of the worker pool\<close>

text \<open>
  The index a worker is working on, the results that are due for the first \<open>n\<close>
  candidates, and what a worker at an await point knows: its index has been taken from
  the cursor, the closes it holds are the served ones, a first reading it holds has passed
  the first test, and a value it holds as returned is the due result. A worker has
  finished only when the cursor has reached the end of the candidates.
\<close>

fun held :: "wstate \<Rightarrow> nat option" where
  "held NotStarted = None"
| "held (AwaitKlines1h i p) = Some i"
| "held (GotKlines1h i k) = Some i"
| "held (AwaitKlines4h i r p) = Some i"
| "held (GotKlines4h i r k) = Some i"
| "held (Returned i r) = Some i"
| "held Finished = None"

definition option_mset :: "'a option \<Rightarrow> 'a multiset" where
  "option_mset x = (case x of None \<Rightarrow> {#} | Some y \<Rightarrow> {#y#})"

definition due_results ::
  "config \<Rightarrow> environment \<Rightarrow> metadata \<Rightarrow> (string \<rightharpoonup> nat) \<Rightarrow> string list \<Rightarrow> nat
   \<Rightarrow> scan_result multiset" where
  "due_results cfg e md ranks targets n =
     mset (List.map_filter (expected_result cfg e md ranks) (take n targets))"

definition contribution ::
  "config \<Rightarrow> environment \<Rightarrow> metadata \<Rightarrow> (string \<rightharpoonup> nat) \<Rightarrow> string list \<Rightarrow> wstate
   \<Rightarrow> scan_result multiset" where
  "contribution cfg e md ranks targets v =
     (case held v of
        None \<Rightarrow> {#}
      | Some i \<Rightarrow> option_mset (expected_result cfg e md ranks (targets ! i)))"

definition pending_ok :: "config \<Rightarrow> environment \<Rightarrow> string \<Rightarrow> string \<Rightarrow> pending \<Rightarrow> bool" where
  "pending_ok cfg e smb itv p =
     (case p of Hit closes \<Rightarrow> closes = served cfg e smb itv | Miss now \<Rightarrow> True)"

fun worker_ok ::
  "config \<Rightarrow> environment \<Rightarrow> metadata \<Rightarrow> (string \<rightharpoonup> nat) \<Rightarrow> string list \<Rightarrow> nat \<Rightarrow> wstate
   \<Rightarrow> bool" where
  "worker_ok cfg e md ranks targets n NotStarted = True"
| "worker_ok cfg e md ranks targets n (AwaitKlines1h i p) =
     (i < n \<and> pending_ok cfg e (targets ! i) ''1h'' p)"
| "worker_ok cfg e md ranks targets n (GotKlines1h i k) =
     (i < n \<and> k = served cfg e (targets ! i) ''1h'')"
| "worker_ok cfg e md ranks targets n (AwaitKlines4h i r p) =
     (i < n \<and> r = calculateRSI (served cfg e (targets ! i) ''1h'') 6 \<and> js_ge r 90
      \<and> pending_ok cfg e (targets ! i) ''4h'' p)"
| "worker_ok cfg e md ranks targets n (GotKlines4h i r k) =
     (i < n \<and> r = calculateRSI (served cfg e (targets ! i) ''1h'') 6 \<and> js_ge r 90
      \<and> k = served cfg e (targets ! i) ''4h'')"
| "worker_ok cfg e md ranks targets n (Returned i r) =
     (i < n \<and> r = expected_result cfg e md ranks (targets ! i))"
| "worker_ok cfg e md ranks targets n Finished = (n = length targets)"

definition workers_inv ::
  "config \<Rightarrow> environment \<Rightarrow> metadata \<Rightarrow> (string \<rightharpoonup> nat) \<Rightarrow> string list \<Rightarrow> nat \<Rightarrow> nat
   \<Rightarrow> scan_result multiset \<Rightarrow> wstate multiset \<Rightarrow> bool" where
  "workers_inv cfg e md ranks targets n done R W =
     ((\<forall>v\<in>#W. worker_ok cfg e md ranks targets n v)
      \<and> R + \<Sum>\<^sub># (image_mset (contribution cfg e md ranks targets) W)
          = due_results cfg e md ranks targets n
      \<and> done + size (filter_mset (\<lambda>v. held v \<noteq> None) W) = n)"

definition pool_inv ::
  "config \<Rightarrow> environment \<Rightarrow> metadata \<Rightarrow> (string \<rightharpoonup> nat) \<Rightarrow> string list \<Rightarrow> pool \<Rightarrow> bool" where
  "pool_inv cfg e md ranks targets s =
     (index s \<le> length targets
      \<and> claimed s = [0..<index s]
      \<and> cache_agrees cfg e (ks s)
      \<and> workers_inv cfg e md ranks targets (index s) (completed s) (mset (results s))
           (mset (workers s)))"

text \<open>
  A measure of the work left: every continuation of a worker that has not finished makes
  it smaller.
\<close>

fun weight :: "wstate \<Rightarrow> nat" where
  "weight NotStarted = 1"
| "weight (AwaitKlines1h i p) = 5"
| "weight (GotKlines1h i k) = 4"
| "weight (AwaitKlines4h i r p) = 3"
| "weight (GotKlines4h i r k) = 2"
| "weight (Returned i r) = 1"
| "weight Finished = 0"

definition work_left :: "string list \<Rightarrow> pool \<Rightarrow> nat" where
  "work_left targets s = 6 * (length targets - index s) + sum_list (map weight (workers s))"

text \<open>
  A schedule that resumes only workers that have not finished: each of its entries runs
  one continuation.
\<close>

fun effective ::
  "config \<Rightarrow> environment \<Rightarrow> metadata \<Rightarrow> (string \<rightharpoonup> nat) \<Rightarrow> string list \<Rightarrow> nat list \<Rightarrow> pool
   \<Rightarrow> bool" where
  "effective cfg e md ranks targets [] s = True"
| "effective cfg e md ranks targets (w # schedule) s =
     (w < length (workers s) \<and> workers s ! w \<noteq> Finished
      \<and> effective cfg e md ranks targets schedule (resume cfg e md ranks targets w s))"

text \<open>
  The calls of \<open>fetchKlines\<close> that are due for a candidate: one for the 1h closes, and one
  for the 4h closes when the 1h reading passes the first test. A worker that has the 1h
  call of its candidate behind it still owes the 4h call when the reading passes.
\<close>

definition passes_first :: "config \<Rightarrow> environment \<Rightarrow> string \<Rightarrow> bool" where
  "passes_first cfg e smb = js_ge (calculateRSI (served cfg e smb ''1h'') 6) 90"

definition second_call :: "config \<Rightarrow> environment \<Rightarrow> string \<Rightarrow> (string \<times> string) multiset" where
  "second_call cfg e smb = (if passes_first cfg e smb then {#(smb, ''4h'')#} else {#})"

definition due_calls :: "config \<Rightarrow> environment \<Rightarrow> string \<Rightarrow> (string \<times> string) multiset" where
  "due_calls cfg e smb = add_mset (smb, ''1h'') (second_call cfg e smb)"

fun remaining_calls ::
  "config \<Rightarrow> environment \<Rightarrow> string list \<Rightarrow> wstate \<Rightarrow> (string \<times> string) multiset" where
  "remaining_calls cfg e targets (AwaitKlines1h i p) = second_call cfg e (targets ! i)"
| "remaining_calls cfg e targets (GotKlines1h i k) = second_call cfg e (targets ! i)"
| "remaining_calls cfg e targets v = {#}"

definition calls_inv ::
  "config \<Rightarrow> environment \<Rightarrow> string list \<Rightarrow> (string \<times> string) multiset \<Rightarrow> pool \<Rightarrow> bool" where
  "calls_inv cfg e targets before s =
     (mset (calls (ks s)) + \<Sum>\<^sub># (image_mset (remaining_calls cfg e targets) (mset (workers s)))
      = before + \<Sum>\<^sub># (image_mset (due_calls cfg e) (mset (take (index s) targets))))"

text \<open>
  What holds of the results under every data source, fixed or not: an entry carries two
  readings that pass the two tests, for a symbol among the candidates. A worker past the
  first test holds a reading that passed it.
\<close>

definition result_passes :: "string list \<Rightarrow> scan_result \<Rightarrow> bool" where
  "result_passes targets r =
     (js_ge (rsi1h r) 90 \<and> js_ge (rsi4h r) 80 \<and> symbol r \<in> set targets)"

fun worker_passes :: "string list \<Rightarrow> wstate \<Rightarrow> bool" where
  "worker_passes targets NotStarted = True"
| "worker_passes targets (AwaitKlines1h i p) = (i < length targets)"
| "worker_passes targets (GotKlines1h i k) = (i < length targets)"
| "worker_passes targets (AwaitKlines4h i r p) = (i < length targets \<and> js_ge r 90)"
| "worker_passes targets (GotKlines4h i r k) = (i < length targets \<and> js_ge r 90)"
| "worker_passes targets (Returned i None) = True"
| "worker_passes targets (Returned i (Some r)) = result_passes targets r"
| "worker_passes targets Finished = True"

definition passes_inv :: "string list \<Rightarrow> pool \<Rightarrow> bool" where
  "passes_inv targets s =
     (list_all (result_passes targets) (results s) \<and> list_all (worker_passes targets) (workers s))"

section \<open>Example data\<close>

text \<open>
  A fixed dataset with four symbols. With period 6 the 1h and 4h readings are 95 and 85
  for ETHUSDT, 60 for XRPUSDT at 1h, 92 and 50 for DOGEUSDT, and 100 and 100 for BTCUSDT;
  every other request fails.
\<close>

definition example_net :: "request \<Rightarrow> real list option" where
  "example_net = (\<lambda>(smb, itv, limit, t).
     if smb = ''ETHUSDT'' then
       (if itv = ''1h'' then Some [10, 29, 29, 29, 29, 29, 28]
        else Some [10, 27, 27, 27, 27, 27, 24])
     else if smb = ''XRPUSDT'' then
       (if itv = ''1h'' then Some [10, 13, 13, 13, 13, 13, 11]
        else Some [10, 27, 27, 27, 27, 27, 24])
     else if smb = ''DOGEUSDT'' then
       (if itv = ''1h'' then Some [10, 33, 33, 33, 33, 33, 31]
        else Some [10, 11, 11, 11, 11, 11, 10])
     else if smb = ''BTCUSDT'' then Some [1, 2, 3, 4, 5, 6, 7, 8]
     else None)"

definition example_env :: environment where
  "example_env = \<lparr>net = example_net, clock = (\<lambda>n. int n)\<rparr>"

definition example_md :: metadata where
  "example_md =
     \<lparr>symbols = [''ETHUSDT'', ''XRPUSDT'', ''DOGEUSDT'', ''BTCUSDT''],
      baseMap = [''ETHUSDT'' \<mapsto> ''ETH'', ''XRPUSDT'' \<mapsto> ''XRP'', ''DOGEUSDT'' \<mapsto> ''DOGE'',
                 ''BTCUSDT'' \<mapsto> ''BTC''],
      stats = [''ETHUSDT'' \<mapsto> \<lparr>lastPrice = 28, quoteVolume = 5000000, priceChangePercent = 3\<rparr>,
               ''XRPUSDT'' \<mapsto> \<lparr>lastPrice = 11, quoteVolume = 7000000, priceChangePercent = 9\<rparr>,
               ''BTCUSDT'' \<mapsto> \<lparr>lastPrice = 8, quoteVolume = 50000000, priceChangePercent = 1\<rparr>],
      fundingMap = [''ETHUSDT'' \<mapsto> 1 / 10000],
      fundingIntervals = [''ETHUSDT'' \<mapsto> 4],
      productList = Array example_feed\<rparr>"

definition empty_kstate :: kstate where
  "empty_kstate = \<lparr>klines = Map.empty, calls = [], requests = []\<rparr>"

section \<open>Properties of the indicator\<close>

text \<open>
  C4. A close series shorter than \<open>period + 1\<close> yields 0, whatever it contains and
  whatever the period is.
\<close>

theorem calculateRSI_short:
  "length closes < period + 1 \<Longrightarrow> calculateRSI closes period = Num 0"
  by (simp add: calculateRSI_def)

theorem calculateRSI_short_witness:
  "length [3, 1, 4, 1, 5 :: real] < 6 + 1 \<and> calculateRSI [3, 1, 4, 1, 5] 6 = Num 0"
  using calculateRSI_short [of "[3, 1, 4, 1, 5]" 6] by simp

lemma fold_preserves:
  assumes "P init" and "\<And>i acc. i \<in> set idxs \<Longrightarrow> P acc \<Longrightarrow> P (step i acc)"
  shows "P (fold step idxs init)"
  using assms by (induction idxs arbitrary: init) auto

lemma accumulate_nonneg:
  "0 \<le> fst gl \<and> 0 \<le> snd gl \<Longrightarrow>
   0 \<le> fst (accumulate closes i gl) \<and> 0 \<le> snd (accumulate closes i gl)"
  by (simp add: accumulate_def Let_def)

lemma smooth_nonneg:
  assumes "0 < period" "0 \<le> fst avg \<and> 0 \<le> snd avg"
  shows "0 \<le> fst (smooth closes period i avg) \<and> 0 \<le> snd (smooth closes period i avg)"
proof -
  have "0 \<le> real period - 1" using assms(1) by simp
  then have "0 \<le> fst avg * (real period - 1)" "0 \<le> snd avg * (real period - 1)"
    using assms(2) by simp_all
  then show ?thesis
    by (simp add: smooth_def Let_def)
qed

lemma averages_nonneg:
  assumes "0 < period"
  shows "0 \<le> fst (fold (smooth closes period) is
            (fst (fold (accumulate closes) js (0, 0)) / real period,
             snd (fold (accumulate closes) js (0, 0)) / real period))
       \<and> 0 \<le> snd (fold (smooth closes period) is
            (fst (fold (accumulate closes) js (0, 0)) / real period,
             snd (fold (accumulate closes) js (0, 0)) / real period))"
proof -
  let ?gl = "fold (accumulate closes) js (0, 0)"
  have "0 \<le> fst ?gl \<and> 0 \<le> snd ?gl"
    by (rule fold_preserves [where P = "\<lambda>gl. 0 \<le> fst gl \<and> 0 \<le> snd gl"])
       (simp_all add: accumulate_nonneg)
  then have "0 \<le> fst (fst ?gl / real period, snd ?gl / real period)
           \<and> 0 \<le> snd (fst ?gl / real period, snd ?gl / real period)"
    by simp
  then show ?thesis
    by (rule fold_preserves [where P = "\<lambda>gl. 0 \<le> fst gl \<and> 0 \<le> snd gl"])
       (simp add: smooth_nonneg assms)
qed

lemma rsi_formula_bounds:
  fixes g l :: real
  assumes "0 \<le> g" "0 < l"
  shows "0 \<le> 100 - 100 / (1 + g / l)" "100 - 100 / (1 + g / l) \<le> 100"
proof -
  have "1 \<le> 1 + g / l" using assms by simp
  then have "100 / (1 + g / l) \<le> 100" "0 \<le> 100 / (1 + g / l)"
    by (simp_all add: divide_le_eq)
  then show "0 \<le> 100 - 100 / (1 + g / l)" "100 - 100 / (1 + g / l) \<le> 100" by simp_all
qed

lemma calculateRSI_bounds:
  assumes "0 < period" "period + 1 \<le> length closes"
  shows "\<exists>r. calculateRSI closes period = Num r \<and> 0 \<le> r \<and> r \<le> 100"
proof -
  let ?gl = "fold (accumulate closes) [1..<period + 1] (0, 0)"
  let ?avg = "fold (smooth closes period) [period + 1..<length closes]
                (fst ?gl / real period, snd ?gl / real period)"
  have nn: "0 \<le> fst ?avg \<and> 0 \<le> snd ?avg"
    using averages_nonneg [OF assms(1)] by blast
  show ?thesis
  proof (cases "snd ?avg = 0")
    case True
    then show ?thesis using assms by (simp add: calculateRSI_def Let_def)
  next
    case False
    then have "0 < snd ?avg" using nn by simp
    then have "0 \<le> 100 - 100 / (1 + fst ?avg / snd ?avg)"
      and "100 - 100 / (1 + fst ?avg / snd ?avg) \<le> 100"
      using rsi_formula_bounds nn by blast+
    then show ?thesis using assms False by (simp add: calculateRSI_def Let_def)
  qed
qed

lemma accumulate_no_loss:
  assumes "sorted closes" "0 < i" "i < length closes" "snd gl = 0"
  shows "snd (accumulate closes i gl) = 0"
proof -
  have "closes ! (i - 1) \<le> closes ! i"
    using assms by (simp add: sorted_nth_mono)
  then show ?thesis using assms(4) by (simp add: accumulate_def Let_def)
qed

lemma smooth_no_loss:
  assumes "sorted closes" "0 < i" "i < length closes" "snd avg = 0"
  shows "snd (smooth closes period i avg) = 0"
proof -
  have "closes ! (i - 1) \<le> closes ! i"
    using assms by (simp add: sorted_nth_mono)
  then show ?thesis using assms(4) by (simp add: smooth_def Let_def)
qed

lemma calculateRSI_sorted:
  assumes "sorted closes" "0 < period" "period + 1 \<le> length closes"
  shows "calculateRSI closes period = Num 100"
proof -
  let ?gl = "fold (accumulate closes) [1..<period + 1] (0, 0)"
  let ?avg = "fold (smooth closes period) [period + 1..<length closes]
                (fst ?gl / real period, snd ?gl / real period)"
  have "snd ?gl = 0"
    by (rule fold_preserves [where P = "\<lambda>gl. snd gl = 0"])
       (use assms in \<open>auto intro: accumulate_no_loss\<close>)
  then have "snd (fst ?gl / real period, snd ?gl / real period) = 0" by simp
  then have "snd ?avg = 0"
    by (rule fold_preserves [where P = "\<lambda>gl. snd gl = 0"])
       (use assms in \<open>auto intro: smooth_no_loss\<close>)
  then show ?thesis using assms by (simp add: calculateRSI_def Let_def)
qed

lemma calculateRSI_not_NaN: "0 < period \<Longrightarrow> calculateRSI closes period \<noteq> NaN"
  using calculateRSI_bounds [of period closes]
  by (cases "period + 1 \<le> length closes") (auto simp: calculateRSI_def)

text \<open>
  C5. For a positive period, a non-decreasing close series of length at least
  \<open>period + 1\<close> (a flat one included) yields exactly 100: no difference is negative, so
  the losses and the smoothed average loss stay zero.
\<close>

theorem calculateRSI_monotone:
  "sorted closes \<Longrightarrow> 0 < period \<Longrightarrow> period + 1 \<le> length closes \<Longrightarrow>
   calculateRSI closes period = Num 100"
  by (rule calculateRSI_sorted)

theorem calculateRSI_monotone_witness:
  "sorted [2, 2, 3, 5, 5, 8, 8, 9 :: real] \<and> 0 < (6 :: nat)
   \<and> 6 + 1 \<le> length [2, 2, 3, 5, 5, 8, 8, 9 :: real]
   \<and> calculateRSI [2, 2, 3, 5, 5, 8, 8, 9] 6 = Num 100"
  using calculateRSI_monotone [of "[2, 2, 3, 5, 5, 8, 8, 9]" 6] by simp

text \<open>
  Without the restriction to a positive period the statement of C5 fails: with period 0
  the one-element series is long enough and non-decreasing, and the result is \<open>NaN\<close>.
\<close>

theorem calculateRSI_monotone_counterexample:
  "sorted [1 :: real] \<and> 0 + 1 \<le> length [1 :: real] \<and> calculateRSI [1] 0 \<noteq> Num 100"
  by (simp add: calculateRSI_def)



section \<open>Properties of the rank map\<close>













section \<open>Properties of fetchKlines\<close>

lemma fetchKlines_begin_calls:
  "calls (snd (fetchKlines_begin cfg e smb itv limit st)) = calls st @ [(smb, itv)]"
  by (simp add: fetchKlines_begin_def Let_def split: option.splits)

lemma fetchKlines_resume_logs:
  "calls (snd (fetchKlines_resume e smb itv limit p st)) = calls st"
  "requests (snd (fetchKlines_resume e smb itv limit p st)) = requests st"
  by (simp_all add: fetchKlines_resume_def split: pending.splits option.splits)

lemma fetchKlines_calls:
  "calls (snd (fetchKlines cfg e smb itv limit st)) = calls st @ [(smb, itv)]"
  by (simp add: fetchKlines_def case_prod_beta fetchKlines_resume_logs fetchKlines_begin_calls)

lemma fetchKlines_requests:
  "requests (snd (fetchKlines cfg e smb itv limit st)) = requests st
   \<or> requests (snd (fetchKlines cfg e smb itv limit st)) =
       requests st @ [(smb, itv, limit, clock e (length (calls st)))]"
  by (auto simp: fetchKlines_def fetchKlines_begin_def fetchKlines_resume_logs Let_def
      split: prod.splits option.splits)

section \<open>Properties of the worker pool\<close>

lemma js_lt_iff_not_ge:
  "0 < period \<Longrightarrow> js_lt (calculateRSI closes period) y \<longleftrightarrow> \<not> js_ge (calculateRSI closes period) y"
  using calculateRSI_not_NaN [of period closes]
  by (cases "calculateRSI closes period") auto

lemma cacheKey_inject:
  assumes "cacheKey smb itv = cacheKey smb' itv'"
    and "itv = ''1h'' \<or> itv = ''4h''" and "itv' = ''1h'' \<or> itv' = ''4h''"
  shows "smb = smb' \<and> itv = itv'"
proof -
  have "length (''_'' @ itv) = length (''_'' @ itv')" using assms(2,3) by auto
  then have "smb = smb' \<and> ''_'' @ itv = ''_'' @ itv'"
    using assms(1) unfolding cacheKey_def by (metis append_eq_append_conv)
  then show ?thesis by simp
qed

lemma fetchKlines_begin_klines:
  "klines (snd (fetchKlines_begin cfg e smb itv limit st)) = klines st"
  by (simp add: fetchKlines_begin_def Let_def split: option.splits)

lemma cache_agrees_klines:
  "klines st' = klines st \<Longrightarrow> cache_agrees cfg e st' = cache_agrees cfg e st"
  by (simp add: cache_agrees_def)

lemma fetchKlines_begin_pending_ok:
  assumes "cache_agrees cfg e st" "itv = ''1h'' \<or> itv = ''4h''"
  shows "pending_ok cfg e smb itv (fst (fetchKlines_begin cfg e smb itv limit st))"
proof (cases "klines st (cacheKey smb itv)")
  case None
  then show ?thesis by (simp add: fetchKlines_begin_def Let_def pending_ok_def)
next
  case (Some en)
  then have "net e (smb, itv, rsiLimit cfg, 0) = Some (data en)"
    using assms unfolding cache_agrees_def by blast
  then show ?thesis
    using Some by (simp add: fetchKlines_begin_def Let_def pending_ok_def served_def)
qed

lemma fetchKlines_resume_served:
  assumes "fixed_dataset e" "pending_ok cfg e smb itv p"
  shows "fst (fetchKlines_resume e smb itv (rsiLimit cfg) p st) = served cfg e smb itv"
proof (cases p)
  case (Hit closes)
  then show ?thesis using assms(2) by (simp add: fetchKlines_resume_def pending_ok_def)
next
  case (Miss now)
  have "net e (smb, itv, rsiLimit cfg, now) = net e (smb, itv, rsiLimit cfg, 0)"
    using assms(1) unfolding fixed_dataset_def by blast
  then show ?thesis
    using Miss by (simp add: fetchKlines_resume_def served_def split: option.splits)
qed

lemma fetchKlines_resume_agrees:
  assumes "fixed_dataset e" "cache_agrees cfg e st" "itv = ''1h'' \<or> itv = ''4h''"
  shows "cache_agrees cfg e (snd (fetchKlines_resume e smb itv (rsiLimit cfg) p st))"
proof (cases p)
  case (Hit closes)
  then show ?thesis using assms(2) by (simp add: fetchKlines_resume_def)
next
  case (Miss now)
  have eq: "net e (smb, itv, rsiLimit cfg, now) = net e (smb, itv, rsiLimit cfg, 0)"
    using assms(1) unfolding fixed_dataset_def by blast
  show ?thesis
  proof (cases "net e (smb, itv, rsiLimit cfg, now)")
    case None
    then show ?thesis using Miss assms(2) by (simp add: fetchKlines_resume_def)
  next
    case (Some closes)
    have "net e (smb', itv', rsiLimit cfg, 0) = Some (data en)"
      if "itv' = ''1h'' \<or> itv' = ''4h''"
        and "((klines st)(cacheKey smb itv \<mapsto> \<lparr>data = closes, timestamp = now\<rparr>))
               (cacheKey smb' itv') = Some en"
      for smb' itv' en
    proof (cases "cacheKey smb' itv' = cacheKey smb itv")
      case True
      then have "smb' = smb \<and> itv' = itv" using cacheKey_inject that(1) assms(3) by blast
      then show ?thesis using that(2) True Some eq by auto
    next
      case False
      then show ?thesis using that assms(2) unfolding cache_agrees_def by auto
    qed
    then show ?thesis
      using Miss Some unfolding cache_agrees_def by (simp add: fetchKlines_resume_def)
  qed
qed

lemma mset_update_split:
  assumes "w < length ws"
  shows "\<exists>rest. mset ws = add_mset (ws ! w) rest \<and> (\<forall>x. mset (ws[w := x]) = add_mset x rest)"
proof -
  have "ws ! w \<in># mset ws" using assms by simp
  then have "mset ws = add_mset (ws ! w) (mset ws - {#ws ! w#})" by simp
  moreover have "\<forall>x. mset (ws[w := x]) = add_mset x (mset ws - {#ws ! w#})"
    using assms by (simp add: mset_update)
  ultimately show ?thesis by blast
qed

lemma due_results_Suc:
  "n < length targets \<Longrightarrow>
   due_results cfg e md ranks targets (Suc n) =
     due_results cfg e md ranks targets n + option_mset (expected_result cfg e md ranks (targets ! n))"
  by (simp add: due_results_def take_Suc_conv_app_nth List.map_filter_def option_mset_def
      split: option.splits)

lemma worker_ok_mono:
  "worker_ok cfg e md ranks targets n v \<Longrightarrow> n < length targets \<Longrightarrow>
   worker_ok cfg e md ranks targets (Suc n) v"
  by (cases v) auto

lemma workers_inv_add:
  "workers_inv cfg e md ranks targets n done R (add_mset v W) =
     (worker_ok cfg e md ranks targets n v
      \<and> (\<forall>u\<in>#W. worker_ok cfg e md ranks targets n u)
      \<and> R + contribution cfg e md ranks targets v
           + \<Sum>\<^sub># (image_mset (contribution cfg e md ranks targets) W)
          = due_results cfg e md ranks targets n
      \<and> done + (if held v \<noteq> None then 1 else 0)
           + size (filter_mset (\<lambda>v. held v \<noteq> None) W) = n)"
  by (auto simp: workers_inv_def ac_simps)

lemma workers_inv_vacant:
  "held v = None \<Longrightarrow> worker_ok cfg e md ranks targets n v \<Longrightarrow>
   workers_inv cfg e md ranks targets n done R (add_mset v W) =
   workers_inv cfg e md ranks targets n done R W"
  by (simp add: workers_inv_add contribution_def) (simp add: workers_inv_def)

lemma workers_inv_claim:
  assumes "workers_inv cfg e md ranks targets n done R W" "n < length targets"
    and "pending_ok cfg e (targets ! n) ''1h'' p"
  shows "workers_inv cfg e md ranks targets (Suc n) done R (add_mset (AwaitKlines1h n p) W)"
proof -
  have "\<forall>u\<in>#W. worker_ok cfg e md ranks targets (Suc n) u"
    using assms(1,2) worker_ok_mono unfolding workers_inv_def by blast
  moreover have "R + contribution cfg e md ranks targets (AwaitKlines1h n p)
           + \<Sum>\<^sub># (image_mset (contribution cfg e md ranks targets) W)
          = due_results cfg e md ranks targets (Suc n)"
    using assms(1,2) unfolding workers_inv_def
    by (simp add: due_results_Suc contribution_def ac_simps)
  moreover have "done + 1 + size (filter_mset (\<lambda>v. held v \<noteq> None) W) = Suc n"
    using assms(1) unfolding workers_inv_def by simp
  ultimately show ?thesis using assms(3) by (simp add: workers_inv_add)
qed

lemma workers_inv_finish:
  assumes "workers_inv cfg e md ranks targets n done R W" "n = length targets"
  shows "workers_inv cfg e md ranks targets n done R (add_mset Finished W)"
  using assms by (simp add: workers_inv_vacant)

lemma worker_loop_inv:
  assumes "cache_agrees cfg e (ks s)" "index s \<le> length targets" "claimed s = [0..<index s]"
    and "\<forall>x. mset ((workers s)[w := x]) = add_mset x rest"
    and "workers_inv cfg e md ranks targets (index s) (completed s) (mset (results s)) rest"
  shows "pool_inv cfg e md ranks targets (worker_loop cfg e targets w s)"
proof (cases "index s < length targets")
  case True
  obtain p ks' where b: "fetchKlines_begin cfg e (targets ! index s) ''1h'' (rsiLimit cfg) (ks s) = (p, ks')"
    by (cases "fetchKlines_begin cfg e (targets ! index s) ''1h'' (rsiLimit cfg) (ks s)")
  have p: "pending_ok cfg e (targets ! index s) ''1h'' p"
    using fetchKlines_begin_pending_ok [OF assms(1), of "''1h''" "targets ! index s" "rsiLimit cfg"] b
    by simp
  have k: "cache_agrees cfg e ks'"
    using fetchKlines_begin_klines [of cfg e "targets ! index s" "''1h''" "rsiLimit cfg" "ks s"] b
      cache_agrees_klines [of ks' "ks s"] assms(1) by simp
  have eq: "worker_loop cfg e targets w s =
      s\<lparr>ks := ks', index := index s + 1, claimed := claimed s @ [index s],
        workers := (workers s)[w := AwaitKlines1h (index s) p]\<rparr>"
    using True b by (simp add: worker_loop_def Let_def)
  show ?thesis
    unfolding eq pool_inv_def
    using True k assms(3,4) workers_inv_claim [OF assms(5) True p]
    by simp
next
  case False
  then have n: "index s = length targets" using assms(2) by simp
  have eq: "worker_loop cfg e targets w s = s\<lparr>workers := (workers s)[w := Finished]\<rparr>"
    using False by (simp add: worker_loop_def)
  show ?thesis
    unfolding eq pool_inv_def
    using assms(1,2,3,4) workers_inv_finish [OF assms(5) n]
    by simp
qed

lemma resume_inv:
  assumes fd: "fixed_dataset e" and inv: "pool_inv cfg e md ranks targets s"
  shows "pool_inv cfg e md ranks targets (resume cfg e md ranks targets w s)"
proof (cases "w < length (workers s)")
  case False
  then show ?thesis using inv by (simp add: resume_def)
next
  case True
  obtain rest where rest: "mset (workers s) = add_mset (workers s ! w) rest"
    and upd: "\<forall>x. mset ((workers s)[w := x]) = add_mset x rest"
    using mset_update_split [OF True] by blast
  have ca: "cache_agrees cfg e (ks s)" and le: "index s \<le> length targets"
    and cl: "claimed s = [0..<index s]"
    and wi: "workers_inv cfg e md ranks targets (index s) (completed s) (mset (results s))
               (add_mset (workers s ! w) rest)"
    using inv rest unfolding pool_inv_def by simp_all
  show ?thesis
  proof (cases "workers s ! w")
    case NotStarted
    have "workers_inv cfg e md ranks targets (index s) (completed s) (mset (results s)) rest"
      using wi NotStarted by (simp add: workers_inv_vacant)
    then have "pool_inv cfg e md ranks targets (worker_loop cfg e targets w s)"
      using worker_loop_inv [OF ca le cl upd] by blast
    then show ?thesis using True NotStarted by (simp add: resume_def)
  next
    case (AwaitKlines1h i p)
    obtain k ks' where r: "fetchKlines_resume e (targets ! i) ''1h'' (rsiLimit cfg) p (ks s) = (k, ks')"
      by (cases "fetchKlines_resume e (targets ! i) ''1h'' (rsiLimit cfg) p (ks s)")
    have ok: "i < index s" "pending_ok cfg e (targets ! i) ''1h'' p"
      using wi AwaitKlines1h by (auto simp: workers_inv_add)
    have k: "k = served cfg e (targets ! i) ''1h''"
      using fetchKlines_resume_served [OF fd ok(2), of "ks s"] r by simp
    have ca': "cache_agrees cfg e ks'"
      using fetchKlines_resume_agrees [OF fd ca, of "''1h''" "targets ! i" p] r by simp
    have eq: "resume cfg e md ranks targets w s =
        s\<lparr>ks := ks', workers := (workers s)[w := GotKlines1h i k]\<rparr>"
      using True AwaitKlines1h r by (simp add: resume_def)
    have "workers_inv cfg e md ranks targets (index s) (completed s) (mset (results s))
               (add_mset (GotKlines1h i k) rest)"
      using wi AwaitKlines1h ok k by (simp add: workers_inv_add contribution_def)
    then show ?thesis
      unfolding eq pool_inv_def using le cl ca' upd by simp
  next
    case (GotKlines1h i k)
    have ok: "i < index s" "k = served cfg e (targets ! i) ''1h''"
      using wi GotKlines1h by (auto simp: workers_inv_add)
    show ?thesis
    proof (cases "js_lt (calculateRSI k 6) 90")
      case lt: True
      have "\<not> qualifies cfg e (targets ! i)"
        using lt ok(2) by (simp add: qualifies_def js_lt_iff_not_ge)
      then have ex: "expected_result cfg e md ranks (targets ! i) = None"
        by (simp add: expected_result_def)
      have eq: "resume cfg e md ranks targets w s =
          s\<lparr>workers := (workers s)[w := Returned i None]\<rparr>"
        using True GotKlines1h lt by (simp add: resume_def)
      have "workers_inv cfg e md ranks targets (index s) (completed s) (mset (results s))
               (add_mset (Returned i None) rest)"
        using wi GotKlines1h ok ex by (simp add: workers_inv_add contribution_def)
      then show ?thesis
        unfolding eq pool_inv_def using le cl ca upd by simp
    next
      case ge: False
      obtain p ks' where b: "fetchKlines_begin cfg e (targets ! i) ''4h'' (rsiLimit cfg) (ks s) = (p, ks')"
        by (cases "fetchKlines_begin cfg e (targets ! i) ''4h'' (rsiLimit cfg) (ks s)")
      have p: "pending_ok cfg e (targets ! i) ''4h'' p"
        using fetchKlines_begin_pending_ok [OF ca, of "''4h''" "targets ! i" "rsiLimit cfg"] b
        by simp
      have ca': "cache_agrees cfg e ks'"
        using fetchKlines_begin_klines [of cfg e "targets ! i" "''4h''" "rsiLimit cfg" "ks s"] b
          cache_agrees_klines [of ks' "ks s"] ca by simp
      have eq: "resume cfg e md ranks targets w s =
          s\<lparr>ks := ks', workers := (workers s)[w := AwaitKlines4h i (calculateRSI k 6) p]\<rparr>"
        using True GotKlines1h ge b by (simp add: resume_def Let_def)
      have "js_ge (calculateRSI k 6) 90" using ge by (simp add: js_lt_iff_not_ge)
      then have "workers_inv cfg e md ranks targets (index s) (completed s) (mset (results s))
               (add_mset (AwaitKlines4h i (calculateRSI k 6) p) rest)"
        using wi GotKlines1h ok p by (simp add: workers_inv_add contribution_def)
      then show ?thesis
        unfolding eq pool_inv_def using le cl ca' upd by simp
    qed
  next
    case (AwaitKlines4h i r1 p)
    obtain k ks' where r: "fetchKlines_resume e (targets ! i) ''4h'' (rsiLimit cfg) p (ks s) = (k, ks')"
      by (cases "fetchKlines_resume e (targets ! i) ''4h'' (rsiLimit cfg) p (ks s)")
    have ok: "i < index s" "pending_ok cfg e (targets ! i) ''4h'' p"
      "r1 = calculateRSI (served cfg e (targets ! i) ''1h'') 6" "js_ge r1 90"
      using wi AwaitKlines4h by (auto simp: workers_inv_add)
    have k: "k = served cfg e (targets ! i) ''4h''"
      using fetchKlines_resume_served [OF fd ok(2), of "ks s"] r by simp
    have ca': "cache_agrees cfg e ks'"
      using fetchKlines_resume_agrees [OF fd ca, of "''4h''" "targets ! i" p] r by simp
    have eq: "resume cfg e md ranks targets w s =
        s\<lparr>ks := ks', workers := (workers s)[w := GotKlines4h i r1 k]\<rparr>"
      using True AwaitKlines4h r by (simp add: resume_def)
    have "workers_inv cfg e md ranks targets (index s) (completed s) (mset (results s))
               (add_mset (GotKlines4h i r1 k) rest)"
      using wi AwaitKlines4h ok k by (simp add: workers_inv_add contribution_def)
    then show ?thesis
      unfolding eq pool_inv_def using le cl ca' upd by simp
  next
    case (GotKlines4h i r1 k)
    have ok: "i < index s" "r1 = calculateRSI (served cfg e (targets ! i) ''1h'') 6"
      "js_ge r1 90" "k = served cfg e (targets ! i) ''4h''"
      using wi GotKlines4h by (auto simp: workers_inv_add)
    define r where "r = (if js_lt (calculateRSI k 6) 80 then None
                         else Some (make_result md ranks (targets ! i) r1 (calculateRSI k 6)))"
    have ex: "r = expected_result cfg e md ranks (targets ! i)"
      using ok by (simp add: r_def expected_result_def qualifies_def js_lt_iff_not_ge)
    have eq: "resume cfg e md ranks targets w s =
        s\<lparr>workers := (workers s)[w := Returned i r]\<rparr>"
      using True GotKlines4h by (simp add: resume_def Let_def r_def)
    have "workers_inv cfg e md ranks targets (index s) (completed s) (mset (results s))
               (add_mset (Returned i r) rest)"
      using wi GotKlines4h ok(1) ex by (simp add: workers_inv_add contribution_def)
    then show ?thesis
      unfolding eq pool_inv_def using le cl ca upd by simp
  next
    case (Returned i r)
    define s1 where "s1 = s\<lparr>results := (case r of None \<Rightarrow> results s | Some x \<Rightarrow> results s @ [x]),
                  completed := completed s + 1\<rparr>"
    have ok: "i < index s" "r = expected_result cfg e md ranks (targets ! i)"
      using wi Returned by (auto simp: workers_inv_add)
    have m: "mset (results s1) = mset (results s) + option_mset r"
      by (simp add: s1_def option_mset_def split: option.splits)
    have "workers_inv cfg e md ranks targets (index s1) (completed s1) (mset (results s1)) rest"
      using wi Returned ok unfolding m
      by (simp add: workers_inv_add contribution_def) (simp add: workers_inv_def s1_def ac_simps)
    moreover have "cache_agrees cfg e (ks s1)" "index s1 \<le> length targets"
      "claimed s1 = [0..<index s1]" "\<forall>x. mset ((workers s1)[w := x]) = add_mset x rest"
      using ca le cl upd by (simp_all add: s1_def)
    ultimately have "pool_inv cfg e md ranks targets (worker_loop cfg e targets w s1)"
      using worker_loop_inv by blast
    then show ?thesis using True Returned by (simp add: resume_def s1_def)
  next
    case Finished
    then show ?thesis using True inv by (simp add: resume_def)
  qed
qed

lemma initial_pool_inv:
  "cache_agrees cfg e st \<Longrightarrow> pool_inv cfg e md ranks targets (initial_pool st n)"
  by (simp add: pool_inv_def initial_pool_def workers_inv_def due_results_def
      List.map_filter_def contribution_def)

lemma fold_resume_inv:
  "fixed_dataset e \<Longrightarrow> pool_inv cfg e md ranks targets s \<Longrightarrow>
   pool_inv cfg e md ranks targets (fold (resume cfg e md ranks targets) schedule s)"
  by (induction schedule arbitrary: s) (simp_all add: resume_inv)

lemma run_pool_inv:
  "fixed_dataset e \<Longrightarrow> cache_agrees cfg e st \<Longrightarrow>
   pool_inv cfg e md ranks targets (run_pool cfg e md ranks targets schedule st)"
  by (simp add: run_pool_def start_workers_def Let_def fold_resume_inv initial_pool_inv)

lemma length_workers_loop: "length (workers (worker_loop cfg e targets w s)) = length (workers s)"
  by (simp add: worker_loop_def Let_def split: prod.splits)

lemma length_workers_resume:
  "length (workers (resume cfg e md ranks targets w s)) = length (workers s)"
  by (simp add: resume_def Let_def length_workers_loop split: wstate.splits prod.splits)

lemma length_workers_fold:
  "length (workers (fold (resume cfg e md ranks targets) schedule s)) = length (workers s)"
  by (induction schedule arbitrary: s) (simp_all add: length_workers_resume)

lemma length_workers_run:
  "length (workers (run_pool cfg e md ranks targets schedule st))
     = min (concurrency cfg) (length targets)"
  by (simp add: run_pool_def start_workers_def Let_def length_workers_fold initial_pool_def)

lemma finished_pool:
  assumes inv: "pool_inv cfg e md ranks targets s" and fin: "all_finished s"
    and n: "length (workers s) = min c (length targets)" "0 < c"
  shows "index s = length targets" "completed s = length targets"
    "claimed s = [0..<length targets]"
    "mset (results s) = mset (List.map_filter (expected_result cfg e md ranks) targets)"
proof -
  have allf: "\<forall>v\<in>#mset (workers s). v = Finished"
    using fin by (simp add: all_finished_def list_all_iff)
  have wi: "workers_inv cfg e md ranks targets (index s) (completed s) (mset (results s))
           (mset (workers s))"
    and le: "index s \<le> length targets" and cl: "claimed s = [0..<index s]"
    using inv by (simp_all add: pool_inv_def)
  show idx: "index s = length targets"
  proof (cases "workers s")
    case Nil
    then have "length targets = 0" using n by (simp add: min_def split: if_splits)
    then show ?thesis using le by simp
  next
    case (Cons v vs)
    then have "v = Finished" using allf by simp
    then have "worker_ok cfg e md ranks targets (index s) Finished"
      using wi Cons unfolding workers_inv_def by auto
    then show ?thesis by simp
  qed
  have z: "filter_mset (\<lambda>v. held v \<noteq> None) (mset (workers s)) = {#}"
    using allf by auto
  show "completed s = length targets"
    using wi idx unfolding workers_inv_def z by simp
  show "claimed s = [0..<length targets]" using cl idx by simp
  have "image_mset (contribution cfg e md ranks targets) (mset (workers s))
          = image_mset (\<lambda>v. {#}) (mset (workers s))"
    using allf by (intro image_mset_cong) (auto simp: contribution_def)
  then have sum0:
    "\<Sum>\<^sub># (image_mset (contribution cfg e md ranks targets) (mset (workers s))) = {#}"
    by simp
  have "mset (results s)
          + \<Sum>\<^sub># (image_mset (contribution cfg e md ranks targets) (mset (workers s)))
        = due_results cfg e md ranks targets (index s)"
    using wi unfolding workers_inv_def by blast
  then show "mset (results s) = mset (List.map_filter (expected_result cfg e md ranks) targets)"
    unfolding sum0 idx due_results_def by simp
qed

lemma sum_list_weight_update:
  "w < length ws \<Longrightarrow>
   sum_list (map weight (ws[w := x])) + weight (ws ! w) = sum_list (map weight ws) + weight x"
proof (induction ws arbitrary: w)
  case Nil
  then show ?case by simp
next
  case (Cons a ws)
  then show ?case by (cases w) auto
qed

lemma worker_loop_decreases:
  assumes "w < length (workers s)" "weight (workers s ! w) = 1"
  shows "work_left targets (worker_loop cfg e targets w s) < work_left targets s"
proof (cases "index s < length targets")
  case True
  obtain p ks' where b: "fetchKlines_begin cfg e (targets ! index s) ''1h'' (rsiLimit cfg) (ks s) = (p, ks')"
    by (cases "fetchKlines_begin cfg e (targets ! index s) ''1h'' (rsiLimit cfg) (ks s)")
  have eq: "worker_loop cfg e targets w s =
      s\<lparr>ks := ks', index := index s + 1, claimed := claimed s @ [index s],
        workers := (workers s)[w := AwaitKlines1h (index s) p]\<rparr>"
    using True b by (simp add: worker_loop_def Let_def)
  show ?thesis
    unfolding eq work_left_def
    using True sum_list_weight_update [OF assms(1), of "AwaitKlines1h (index s) p"] assms(2)
    by simp
next
  case False
  have eq: "worker_loop cfg e targets w s = s\<lparr>workers := (workers s)[w := Finished]\<rparr>"
    using False by (simp add: worker_loop_def)
  show ?thesis
    unfolding eq work_left_def
    using sum_list_weight_update [OF assms(1), of Finished] assms(2)
    by simp
qed

lemma update_decreases:
  assumes "w < length (workers s)" "weight x < weight (workers s ! w)"
  shows "work_left targets (s\<lparr>ks := k, workers := (workers s)[w := x]\<rparr>) < work_left targets s"
    and "work_left targets (s\<lparr>workers := (workers s)[w := x]\<rparr>) < work_left targets s"
  using sum_list_weight_update [OF assms(1), of x] assms(2)
  by (simp_all add: work_left_def)

lemma resume_decreases:
  assumes "w < length (workers s)" "workers s ! w \<noteq> Finished"
  shows "work_left targets (resume cfg e md ranks targets w s) < work_left targets s"
proof (cases "workers s ! w")
  case NotStarted
  then show ?thesis
    using assms(1) worker_loop_decreases [OF assms(1), of targets cfg e]
    by (simp add: resume_def)
next
  case (AwaitKlines1h i p)
  then show ?thesis
    using assms(1) by (simp add: resume_def update_decreases split: prod.splits)
next
  case (GotKlines1h i k)
  then show ?thesis
    using assms(1) by (simp add: resume_def Let_def update_decreases split: prod.splits)
next
  case (AwaitKlines4h i r p)
  then show ?thesis
    using assms(1) by (simp add: resume_def update_decreases split: prod.splits)
next
  case (GotKlines4h i r k)
  then show ?thesis
    using assms(1) by (simp add: resume_def Let_def update_decreases split: prod.splits)
next
  case (Returned i r)
  define s1 where "s1 = s\<lparr>results := (case r of None \<Rightarrow> results s | Some x \<Rightarrow> results s @ [x]),
                  completed := completed s + 1\<rparr>"
  have "work_left targets (worker_loop cfg e targets w s1) < work_left targets s1"
    using worker_loop_decreases [of w s1 targets cfg e] assms(1) Returned by (simp add: s1_def)
  moreover have "work_left targets s1 = work_left targets s"
    by (simp add: s1_def work_left_def)
  ultimately show ?thesis using assms(1) Returned by (simp add: resume_def s1_def)
next
  case Finished
  then show ?thesis using assms(2) by simp
qed

lemma finishing_schedule:
  "\<exists>schedule. all_finished (fold (resume cfg e md ranks targets) schedule s)"
proof (induction "work_left targets s" arbitrary: s rule: less_induct)
  case less
  show ?case
  proof (cases "all_finished s")
    case True
    then have "all_finished (fold (resume cfg e md ranks targets) [] s)" by simp
    then show ?thesis by blast
  next
    case False
    then obtain w where w: "w < length (workers s)" "workers s ! w \<noteq> Finished"
      by (auto simp: all_finished_def list_all_length)
    from less [OF resume_decreases [OF w]]
    obtain schedule where
      "all_finished (fold (resume cfg e md ranks targets) schedule (resume cfg e md ranks targets w s))"
      by blast
    then have "all_finished (fold (resume cfg e md ranks targets) (w # schedule) s)" by simp
    then show ?thesis by blast
  qed
qed

lemma run_pool_finishes:
  "\<exists>schedule. all_finished (run_pool cfg e md ranks targets schedule st)"
  unfolding run_pool_def by (rule finishing_schedule)

text \<open>
  The cache of a run keeps to the dataset, so the next cycle starts as this one did; and
  a schedule of continuations cannot be longer than the work left at its start, so
  every run ends.
\<close>

lemma run_pool_cache_agrees:
  "fixed_dataset e \<Longrightarrow> cache_agrees cfg e st \<Longrightarrow>
   cache_agrees cfg e (ks (run_pool cfg e md ranks targets schedule st))"
  using run_pool_inv [of e cfg st md ranks targets schedule] by (simp add: pool_inv_def)

lemma cache_agrees_empty: "klines st = Map.empty \<Longrightarrow> cache_agrees cfg e st"
  by (simp add: cache_agrees_def)

lemma effective_bounded:
  "effective cfg e md ranks targets schedule s \<Longrightarrow>
   length schedule + work_left targets (fold (resume cfg e md ranks targets) schedule s)
     \<le> work_left targets s"
proof (induction schedule arbitrary: s)
  case Nil
  then show ?case by simp
next
  case (Cons w schedule)
  then have "work_left targets (resume cfg e md ranks targets w s) < work_left targets s"
    using resume_decreases by simp
  moreover have "length schedule
      + work_left targets (fold (resume cfg e md ranks targets) schedule
          (resume cfg e md ranks targets w s))
     \<le> work_left targets (resume cfg e md ranks targets w s)"
    using Cons by simp
  ultimately show ?case by simp
qed

text \<open>
  The calls of \<open>fetchKlines\<close> during a run. When all workers have finished, the log holds,
  beyond what it held before, one 1h call for every candidate and one 4h call for every
  candidate that passes the first test: a candidate that fails it has no 4h call at all.
\<close>

lemma worker_loop_calls:
  assumes upd: "\<forall>x. mset ((workers s)[w := x]) = add_mset x rest"
    and c: "mset (calls (ks s)) + \<Sum>\<^sub># (image_mset (remaining_calls cfg e targets) rest)
      = before + \<Sum>\<^sub># (image_mset (due_calls cfg e) (mset (take (index s) targets)))"
  shows "calls_inv cfg e targets before (worker_loop cfg e targets w s)"
proof (cases "index s < length targets")
  case True
  obtain p ks' where b: "fetchKlines_begin cfg e (targets ! index s) ''1h'' (rsiLimit cfg) (ks s) = (p, ks')"
    by (cases "fetchKlines_begin cfg e (targets ! index s) ''1h'' (rsiLimit cfg) (ks s)")
  have k: "calls ks' = calls (ks s) @ [(targets ! index s, ''1h'')]"
    using fetchKlines_begin_calls [of cfg e "targets ! index s" "''1h''" "rsiLimit cfg" "ks s"] b
    by simp
  have eq: "worker_loop cfg e targets w s =
      s\<lparr>ks := ks', index := index s + 1, claimed := claimed s @ [index s],
        workers := (workers s)[w := AwaitKlines1h (index s) p]\<rparr>"
    using True b by (simp add: worker_loop_def Let_def)
  show ?thesis
    unfolding eq calls_inv_def
    using True upd c k by (simp add: take_Suc_conv_app_nth due_calls_def ac_simps)
next
  case False
  have eq: "worker_loop cfg e targets w s = s\<lparr>workers := (workers s)[w := Finished]\<rparr>"
    using False by (simp add: worker_loop_def)
  show ?thesis
    unfolding eq calls_inv_def using upd c by simp
qed

lemma resume_calls:
  assumes fd: "fixed_dataset e" and inv: "pool_inv cfg e md ranks targets s"
    and ci: "calls_inv cfg e targets before s"
  shows "calls_inv cfg e targets before (resume cfg e md ranks targets w s)"
proof (cases "w < length (workers s)")
  case False
  then show ?thesis using ci by (simp add: resume_def)
next
  case True
  obtain rest where rest: "mset (workers s) = add_mset (workers s ! w) rest"
    and upd: "\<forall>x. mset ((workers s)[w := x]) = add_mset x rest"
    using mset_update_split [OF True] by blast
  have wi: "workers_inv cfg e md ranks targets (index s) (completed s) (mset (results s))
               (add_mset (workers s ! w) rest)"
    using inv rest unfolding pool_inv_def by simp
  have c: "mset (calls (ks s)) + remaining_calls cfg e targets (workers s ! w)
      + \<Sum>\<^sub># (image_mset (remaining_calls cfg e targets) rest)
      = before + \<Sum>\<^sub># (image_mset (due_calls cfg e) (mset (take (index s) targets)))"
    using ci rest unfolding calls_inv_def by (simp add: ac_simps)
  show ?thesis
  proof (cases "workers s ! w")
    case NotStarted
    then have "calls_inv cfg e targets before (worker_loop cfg e targets w s)"
      using worker_loop_calls [OF upd] c by simp
    then show ?thesis using True NotStarted by (simp add: resume_def)
  next
    case (AwaitKlines1h i p)
    obtain k ks' where r: "fetchKlines_resume e (targets ! i) ''1h'' (rsiLimit cfg) p (ks s) = (k, ks')"
      by (cases "fetchKlines_resume e (targets ! i) ''1h'' (rsiLimit cfg) p (ks s)")
    have k: "calls ks' = calls (ks s)"
      using fetchKlines_resume_logs(1) [of e "targets ! i" "''1h''" "rsiLimit cfg" p "ks s"] r by simp
    have eq: "resume cfg e md ranks targets w s =
        s\<lparr>ks := ks', workers := (workers s)[w := GotKlines1h i k]\<rparr>"
      using True AwaitKlines1h r by (simp add: resume_def)
    show ?thesis
      unfolding eq calls_inv_def using upd c k AwaitKlines1h by (simp add: ac_simps)
  next
    case (GotKlines1h i k)
    have ok: "k = served cfg e (targets ! i) ''1h''"
      using wi GotKlines1h by (auto simp: workers_inv_add)
    show ?thesis
    proof (cases "js_lt (calculateRSI k 6) 90")
      case lt: True
      have "second_call cfg e (targets ! i) = {#}"
        using lt ok by (simp add: second_call_def passes_first_def js_lt_iff_not_ge)
      moreover have eq: "resume cfg e md ranks targets w s =
          s\<lparr>workers := (workers s)[w := Returned i None]\<rparr>"
        using True GotKlines1h lt by (simp add: resume_def)
      ultimately show ?thesis
        unfolding eq calls_inv_def using upd c GotKlines1h by simp
    next
      case ge: False
      obtain p ks' where b: "fetchKlines_begin cfg e (targets ! i) ''4h'' (rsiLimit cfg) (ks s) = (p, ks')"
        by (cases "fetchKlines_begin cfg e (targets ! i) ''4h'' (rsiLimit cfg) (ks s)")
      have k: "calls ks' = calls (ks s) @ [(targets ! i, ''4h'')]"
        using fetchKlines_begin_calls [of cfg e "targets ! i" "''4h''" "rsiLimit cfg" "ks s"] b
        by simp
      have "second_call cfg e (targets ! i) = {#(targets ! i, ''4h'')#}"
        using ge ok by (simp add: second_call_def passes_first_def js_lt_iff_not_ge)
      moreover have eq: "resume cfg e md ranks targets w s =
          s\<lparr>ks := ks', workers := (workers s)[w := AwaitKlines4h i (calculateRSI k 6) p]\<rparr>"
        using True GotKlines1h ge b by (simp add: resume_def Let_def)
      ultimately show ?thesis
        unfolding eq calls_inv_def using upd c k GotKlines1h by (simp add: ac_simps)
    qed
  next
    case (AwaitKlines4h i r1 p)
    obtain k ks' where r: "fetchKlines_resume e (targets ! i) ''4h'' (rsiLimit cfg) p (ks s) = (k, ks')"
      by (cases "fetchKlines_resume e (targets ! i) ''4h'' (rsiLimit cfg) p (ks s)")
    have k: "calls ks' = calls (ks s)"
      using fetchKlines_resume_logs(1) [of e "targets ! i" "''4h''" "rsiLimit cfg" p "ks s"] r by simp
    have eq: "resume cfg e md ranks targets w s =
        s\<lparr>ks := ks', workers := (workers s)[w := GotKlines4h i r1 k]\<rparr>"
      using True AwaitKlines4h r by (simp add: resume_def)
    show ?thesis
      unfolding eq calls_inv_def using upd c k AwaitKlines4h by (simp add: ac_simps)
  next
    case (GotKlines4h i r1 k)
    have eq: "resume cfg e md ranks targets w s =
        s\<lparr>workers := (workers s)[w := Returned i
            (if js_lt (calculateRSI k 6) 80 then None
             else Some (make_result md ranks (targets ! i) r1 (calculateRSI k 6)))]\<rparr>"
      using True GotKlines4h by (simp add: resume_def Let_def)
    show ?thesis
      unfolding eq calls_inv_def using upd c GotKlines4h by (simp add: ac_simps)
  next
    case (Returned i r)
    define s1 where "s1 = s\<lparr>results := (case r of None \<Rightarrow> results s | Some x \<Rightarrow> results s @ [x]),
                  completed := completed s + 1\<rparr>"
    have "\<forall>x. mset ((workers s1)[w := x]) = add_mset x rest"
      using upd by (simp add: s1_def)
    moreover have "mset (calls (ks s1)) + \<Sum>\<^sub># (image_mset (remaining_calls cfg e targets) rest)
      = before + \<Sum>\<^sub># (image_mset (due_calls cfg e) (mset (take (index s1) targets)))"
      using c Returned by (simp add: s1_def)
    ultimately have "calls_inv cfg e targets before (worker_loop cfg e targets w s1)"
      by (rule worker_loop_calls)
    then show ?thesis using True Returned by (simp add: resume_def s1_def)
  next
    case Finished
    then show ?thesis using True ci by (simp add: resume_def)
  qed
qed

lemma fold_resume_calls:
  "fixed_dataset e \<Longrightarrow> pool_inv cfg e md ranks targets s \<Longrightarrow> calls_inv cfg e targets before s \<Longrightarrow>
   calls_inv cfg e targets before (fold (resume cfg e md ranks targets) schedule s)"
  by (induction schedule arbitrary: s) (simp_all add: resume_inv resume_calls)

lemma initial_pool_calls: "calls_inv cfg e targets (mset (calls st)) (initial_pool st n)"
  by (simp add: calls_inv_def initial_pool_def)

lemma run_pool_calls_inv:
  assumes "fixed_dataset e" "cache_agrees cfg e st"
  shows "calls_inv cfg e targets (mset (calls st)) (run_pool cfg e md ranks targets schedule st)"
  unfolding run_pool_def start_workers_def Let_def
  by (intro fold_resume_calls fold_resume_inv assms initial_pool_inv initial_pool_calls)

lemma finished_calls:
  assumes fd: "fixed_dataset e" and ca: "cache_agrees cfg e st" and c: "0 < concurrency cfg"
    and fin: "all_finished (run_pool cfg e md ranks targets schedule st)"
  shows "mset (calls (ks (run_pool cfg e md ranks targets schedule st)))
     = mset (calls st) + \<Sum>\<^sub># (image_mset (due_calls cfg e) (mset targets))"
proof -
  let ?s = "run_pool cfg e md ranks targets schedule st"
  have idx: "index ?s = length targets"
    using finished_pool(1) [OF run_pool_inv [OF fd ca] fin length_workers_run c] .
  have allf: "\<forall>v\<in>#mset (workers ?s). v = Finished"
    using fin by (simp add: all_finished_def list_all_iff)
  have "image_mset (remaining_calls cfg e targets) (mset (workers ?s))
          = image_mset (\<lambda>v. {#}) (mset (workers ?s))"
    using allf by (intro image_mset_cong) auto
  then have sum0: "\<Sum>\<^sub># (image_mset (remaining_calls cfg e targets) (mset (workers ?s))) = {#}"
    by simp
  show ?thesis
    using run_pool_calls_inv [OF fd ca, of targets md ranks schedule]
    unfolding calls_inv_def sum0 idx by simp
qed

lemma count_due_calls_4h:
  "\<not> passes_first cfg e smb \<Longrightarrow>
   count (\<Sum>\<^sub># (image_mset (due_calls cfg e) (mset targets))) (smb, ''4h'') = 0"
  by (induction targets) (auto simp: due_calls_def second_call_def)

lemma count_due_calls_1h:
  "count (\<Sum>\<^sub># (image_mset (due_calls cfg e) (mset targets))) (smb, ''1h'') = count_list targets smb"
  by (induction targets) (auto simp: due_calls_def second_call_def)

lemma early_exit_in_pool:
  assumes "fixed_dataset e" "cache_agrees cfg e st" "0 < concurrency cfg"
    and "all_finished (run_pool cfg e md ranks targets schedule st)"
    and "\<not> passes_first cfg e smb"
  shows "count_list (calls (ks (run_pool cfg e md ranks targets schedule st))) (smb, ''4h'')
           = count_list (calls st) (smb, ''4h'')"
    and "count_list (calls (ks (run_pool cfg e md ranks targets schedule st))) (smb, ''1h'')
           = count_list (calls st) (smb, ''1h'') + count_list targets smb"
proof -
  have m: "mset (calls (ks (run_pool cfg e md ranks targets schedule st)))
     = mset (calls st) + \<Sum>\<^sub># (image_mset (due_calls cfg e) (mset targets))"
    using finished_calls [OF assms(1-4)] .
  show "count_list (calls (ks (run_pool cfg e md ranks targets schedule st))) (smb, ''4h'')
           = count_list (calls st) (smb, ''4h'')"
    using arg_cong [OF m, of "\<lambda>M. count M (smb, ''4h'')"] count_due_calls_4h [OF assms(5)]
    by (simp add: count_mset)
  show "count_list (calls (ks (run_pool cfg e md ranks targets schedule st))) (smb, ''1h'')
           = count_list (calls st) (smb, ''1h'') + count_list targets smb"
    using arg_cong [OF m, of "\<lambda>M. count M (smb, ''1h'')"] count_due_calls_1h
    by (simp add: count_mset)
qed

text \<open>
  Under every data source and every schedule, whatever the cache holds, an entry of the
  results carries a 1h reading of at least 90 and a 4h reading of at least 80 and belongs
  to a candidate.
\<close>

lemma list_all_update:
  "list_all P ws \<Longrightarrow> P x \<Longrightarrow> list_all P (ws[w := x])"
  by (induction ws arbitrary: w) (auto split: nat.splits)

lemma worker_loop_passes:
  assumes "list_all (result_passes targets) (results s)" "list_all (worker_passes targets) (workers s)"
  shows "passes_inv targets (worker_loop cfg e targets w s)"
  using assms
  by (auto simp: passes_inv_def worker_loop_def Let_def list_all_update split: prod.splits)

lemma resume_passes:
  assumes "passes_inv targets s"
  shows "passes_inv targets (resume cfg e md ranks targets w s)"
proof (cases "w < length (workers s)")
  case False
  then show ?thesis using assms by (simp add: resume_def)
next
  case True
  have rs: "list_all (result_passes targets) (results s)"
    and ws: "list_all (worker_passes targets) (workers s)"
    using assms by (simp_all add: passes_inv_def)
  have here: "worker_passes targets (workers s ! w)"
    using ws True by (simp add: list_all_length)
  show ?thesis
  proof (cases "workers s ! w")
    case NotStarted
    then show ?thesis using True worker_loop_passes [OF rs ws] by (simp add: resume_def)
  next
    case (AwaitKlines1h i p)
    then show ?thesis
      using True rs ws here
      by (auto simp: resume_def passes_inv_def list_all_update split: prod.splits)
  next
    case (GotKlines1h i k)
    then show ?thesis
      using True rs ws here
      by (auto simp: resume_def passes_inv_def Let_def list_all_update js_lt_iff_not_ge
          split: prod.splits)
  next
    case (AwaitKlines4h i r p)
    then show ?thesis
      using True rs ws here
      by (auto simp: resume_def passes_inv_def list_all_update split: prod.splits)
  next
    case (GotKlines4h i r k)
    then show ?thesis
      using True rs ws here
      by (auto simp: resume_def passes_inv_def Let_def list_all_update js_lt_iff_not_ge
          result_passes_def make_result_def)
  next
    case (Returned i r)
    define s1 where "s1 = s\<lparr>results := (case r of None \<Rightarrow> results s | Some x \<Rightarrow> results s @ [x]),
                  completed := completed s + 1\<rparr>"
    have "list_all (result_passes targets) (results s1)"
      using rs here Returned by (cases r) (simp_all add: s1_def)
    moreover have "list_all (worker_passes targets) (workers s1)" using ws by (simp add: s1_def)
    ultimately have "passes_inv targets (worker_loop cfg e targets w s1)"
      by (rule worker_loop_passes)
    then show ?thesis using True Returned by (simp add: resume_def s1_def)
  next
    case Finished
    then show ?thesis using True assms by (simp add: resume_def)
  qed
qed

lemma fold_resume_passes:
  "passes_inv targets s \<Longrightarrow> passes_inv targets (fold (resume cfg e md ranks targets) schedule s)"
  by (induction schedule arbitrary: s) (simp_all add: resume_passes)

lemma results_pass_thresholds:
  "r \<in> set (results (run_pool cfg e md ranks targets schedule st)) \<Longrightarrow>
   js_ge (rsi1h r) 90 \<and> js_ge (rsi4h r) 80 \<and> symbol r \<in> set targets"
proof -
  have "passes_inv targets (initial_pool st n)" for n
    by (simp add: passes_inv_def initial_pool_def list_all_length)
  then have "passes_inv targets (run_pool cfg e md ranks targets schedule st)"
    by (simp add: run_pool_def start_workers_def Let_def fold_resume_passes)
  then show "r \<in> set (results (run_pool cfg e md ranks targets schedule st)) \<Longrightarrow>
     js_ge (rsi1h r) 90 \<and> js_ge (rsi4h r) 80 \<and> symbol r \<in> set targets"
    by (auto simp: passes_inv_def list_all_iff result_passes_def)
qed

text \<open>
  A worker resumed alone from its first await runs \<open>processSymbol\<close>: after two
  continuations (early exit) or four it holds the value \<open>processSymbol\<close> returns, and the
  candle cache and the logs are those \<open>processSymbol\<close> leaves.
\<close>

lemma worker_runs_processSymbol:
  assumes w: "w < length (workers s)"
    and at: "workers s ! w = AwaitKlines1h i p"
    and b: "fetchKlines_begin cfg e (targets ! i) ''1h'' (rsiLimit cfg) st = (p, ks s)"
  shows "\<exists>n\<le>4. ((resume cfg e md ranks targets w) ^^ n) s =
           s\<lparr>ks := snd (processSymbol cfg e md ranks (targets ! i) st),
             workers := (workers s)[w := Returned i (fst (processSymbol cfg e md ranks (targets ! i) st))]\<rparr>"
proof -
  let ?R = "resume cfg e md ranks targets w"
  obtain k1 ks1 where r1: "fetchKlines_resume e (targets ! i) ''1h'' (rsiLimit cfg) p (ks s) = (k1, ks1)"
    by (cases "fetchKlines_resume e (targets ! i) ''1h'' (rsiLimit cfg) p (ks s)")
  have f1: "fetchKlines cfg e (targets ! i) ''1h'' (rsiLimit cfg) st = (k1, ks1)"
    using b r1 by (simp add: fetchKlines_def)
  have s1: "?R s = s\<lparr>ks := ks1, workers := (workers s)[w := GotKlines1h i k1]\<rparr>"
    using w at r1 by (simp add: resume_def)
  show ?thesis
  proof (cases "js_lt (calculateRSI k1 6) 90")
    case True
    have "?R (?R s) = s\<lparr>ks := ks1, workers := (workers s)[w := Returned i None]\<rparr>"
      unfolding s1 using w True by (simp add: resume_def)
    moreover have "processSymbol cfg e md ranks (targets ! i) st = (None, ks1)"
      using f1 True by (simp add: processSymbol_def)
    ultimately have "(?R ^^ 2) s =
           s\<lparr>ks := snd (processSymbol cfg e md ranks (targets ! i) st),
             workers := (workers s)[w := Returned i (fst (processSymbol cfg e md ranks (targets ! i) st))]\<rparr>"
      by (simp add: numeral_2_eq_2)
    then show ?thesis by (intro exI [of _ 2]) simp
  next
    case False
    obtain p4 ks2 where b4: "fetchKlines_begin cfg e (targets ! i) ''4h'' (rsiLimit cfg) ks1 = (p4, ks2)"
      by (cases "fetchKlines_begin cfg e (targets ! i) ''4h'' (rsiLimit cfg) ks1")
    obtain k4 ks3 where r4: "fetchKlines_resume e (targets ! i) ''4h'' (rsiLimit cfg) p4 ks2 = (k4, ks3)"
      by (cases "fetchKlines_resume e (targets ! i) ''4h'' (rsiLimit cfg) p4 ks2")
    have f4: "fetchKlines cfg e (targets ! i) ''4h'' (rsiLimit cfg) ks1 = (k4, ks3)"
      using b4 r4 by (simp add: fetchKlines_def)
    define res where "res = (if js_lt (calculateRSI k4 6) 80 then None
        else Some (make_result md ranks (targets ! i) (calculateRSI k1 6) (calculateRSI k4 6)))"
    have s2: "?R (?R s) = s\<lparr>ks := ks2, workers := (workers s)[w := AwaitKlines4h i (calculateRSI k1 6) p4]\<rparr>"
      unfolding s1 using w False b4 by (simp add: resume_def Let_def)
    have s3: "?R (?R (?R s)) = s\<lparr>ks := ks3, workers := (workers s)[w := GotKlines4h i (calculateRSI k1 6) k4]\<rparr>"
      unfolding s2 using w r4 by (simp add: resume_def)
    have s4: "?R (?R (?R (?R s))) = s\<lparr>ks := ks3, workers := (workers s)[w := Returned i res]\<rparr>"
      unfolding s3 using w by (simp add: resume_def Let_def res_def)
    have "processSymbol cfg e md ranks (targets ! i) st = (res, ks3)"
      using f1 f4 False by (simp add: processSymbol_def res_def Let_def)
    then have "(?R ^^ 4) s =
           s\<lparr>ks := snd (processSymbol cfg e md ranks (targets ! i) st),
             workers := (workers s)[w := Returned i (fst (processSymbol cfg e md ranks (targets ! i) st))]\<rparr>"
      using s4 by (simp add: numeral_eq_Suc funpow_swap1)
    then show ?thesis by (intro exI [of _ 4]) simp
  qed
qed

section \<open>Properties of the example data\<close>

lemma fixed_example: "fixed_dataset example_env"
  by (simp add: fixed_dataset_def example_env_def example_net_def)

lemma agrees_empty: "cache_agrees cfg e empty_kstate"
  by (simp add: cache_agrees_def empty_kstate_def)


section \<open>Early exit\<close>

text \<open>
  C2. When the reading computed from the 1h closes is below 90, \<open>processSymbol\<close> returns
  \<open>null\<close> in the state the 1h fetch left: \<open>fetchKlines\<close> has been called exactly once, for
  the 1h interval, and at most that one request has gone to the network (none on a cache
  hit). No call and no request for the 4h interval is made.
\<close>

theorem early_exit_one_call:
  assumes "fetchKlines cfg e smb ''1h'' (rsiLimit cfg) st = (k1h, st1)"
    and "js_lt (calculateRSI k1h 6) 90"
  shows "processSymbol cfg e md ranks smb st = (None, st1)
    \<and> calls st1 = calls st @ [(smb, ''1h'')]
    \<and> (requests st1 = requests st
        \<or> requests st1 = requests st @ [(smb, ''1h'', rsiLimit cfg, clock e (length (calls st)))])"
proof -
  have "processSymbol cfg e md ranks smb st = (None, st1)"
    using assms by (simp add: processSymbol_def)
  moreover have "calls st1 = calls st @ [(smb, ''1h'')]"
    using fetchKlines_calls [of cfg e smb "''1h''" "rsiLimit cfg" st] assms(1) by simp
  moreover have "requests st1 = requests st
        \<or> requests st1 = requests st @ [(smb, ''1h'', rsiLimit cfg, clock e (length (calls st)))]"
    using fetchKlines_requests [of cfg e smb "''1h''" "rsiLimit cfg" st] assms(1) by simp
  ultimately show ?thesis by blast
qed

theorem early_exit_one_call_witness:
  "js_lt (calculateRSI (fst (fetchKlines CONFIG example_env ''XRPUSDT'' ''1h'' (rsiLimit CONFIG)
             empty_kstate)) 6) 90
   \<and> fst (processSymbol CONFIG example_env example_md (rankMap example_feed) ''XRPUSDT''
            empty_kstate) = None
   \<and> calls (snd (processSymbol CONFIG example_env example_md (rankMap example_feed) ''XRPUSDT''
            empty_kstate)) = [(''XRPUSDT'', ''1h'')]
   \<and> requests (snd (processSymbol CONFIG example_env example_md (rankMap example_feed)
            ''XRPUSDT'' empty_kstate)) = [(''XRPUSDT'', ''1h'', 35, 0)]"
proof -
  let ?f = "fetchKlines CONFIG example_env ''XRPUSDT'' ''1h'' (rsiLimit CONFIG) empty_kstate"
  have f: "?f = (fst ?f, snd ?f)" by simp
  have lt: "js_lt (calculateRSI (fst ?f) 6) 90" by code_simp
  have rq: "requests (snd ?f) = [(''XRPUSDT'', ''1h'', 35, 0)]" by code_simp
  have p: "processSymbol CONFIG example_env example_md (rankMap example_feed) ''XRPUSDT''
             empty_kstate = (None, snd ?f)"
    and c: "calls (snd ?f) = calls empty_kstate @ [(''XRPUSDT'', ''1h'')]"
    using early_exit_one_call [OF f lt, of example_md "rankMap example_feed"] by blast+
  have e: "calls empty_kstate = []" by (simp add: empty_kstate_def)
  show ?thesis using lt rq by (simp add: p c e)
qed

section \<open>Thresholds and period\<close>




section \<open>Properties of the scan cycle\<close>











section \<open>Concurrency\<close>

lemma cache_agrees_concurrency [simp]:
  "cache_agrees (cfg\<lparr>concurrency := c\<rparr>) e st = cache_agrees cfg e st"
  by (simp add: cache_agrees_def)

lemma expected_result_concurrency [simp]:
  "expected_result (cfg\<lparr>concurrency := c\<rparr>) e md ranks = expected_result cfg e md ranks"
  by (rule ext) (simp add: expected_result_def qualifies_def served_def)

lemma pool_outcome:
  assumes fd: "fixed_dataset e" and ca: "cache_agrees cfg e st" and c: "0 < c"
    and fin: "all_finished (run_pool (cfg\<lparr>concurrency := c\<rparr>) e md ranks targets schedule st)"
  shows "mset (results (run_pool (cfg\<lparr>concurrency := c\<rparr>) e md ranks targets schedule st))
          = mset (List.map_filter (expected_result cfg e md ranks) targets)"
    and "claimed (run_pool (cfg\<lparr>concurrency := c\<rparr>) e md ranks targets schedule st) = [0..<length targets]"
    and "completed (run_pool (cfg\<lparr>concurrency := c\<rparr>) e md ranks targets schedule st) = length targets"
proof -
  let ?cfg = "cfg\<lparr>concurrency := c\<rparr>"
  have inv: "pool_inv ?cfg e md ranks targets (run_pool ?cfg e md ranks targets schedule st)"
    using run_pool_inv [OF fd, of ?cfg st] ca by simp
  have len: "length (workers (run_pool ?cfg e md ranks targets schedule st))
      = min (concurrency ?cfg) (length targets)"
    by (rule length_workers_run)
  have c': "0 < concurrency ?cfg" using c by simp
  show "mset (results (run_pool ?cfg e md ranks targets schedule st))
          = mset (List.map_filter (expected_result cfg e md ranks) targets)"
    using finished_pool(4) [OF inv fin len c'] by simp
  show "claimed (run_pool ?cfg e md ranks targets schedule st) = [0..<length targets]"
    using finished_pool(3) [OF inv fin len c'] .
  show "completed (run_pool ?cfg e md ranks targets schedule st) = length targets"
    using finished_pool(2) [OF inv fin len c'] .
qed

text \<open>
  C3. With a fixed dataset and candle caches that hold nothing but served closes, a run
  with one worker and a run with \<open>N > 1\<close> workers over the same candidates both finish
  under some schedule, and whenever both have finished their results are equal as sets
  (and as multisets), whatever the two schedules were. For every positive number of
  workers and every schedule under which the run finishes, the indices taken from the
  cursor are \<open>0, 1, ..., total - 1\<close>, each once and in this order, and \<open>completed\<close> is
  \<open>total\<close>.
\<close>

theorem concurrency_independent:
  assumes "fixed_dataset e" "cache_agrees cfg e st" "cache_agrees cfg e st'" "1 < N"
  shows "(\<exists>schedule. all_finished (run_pool (cfg\<lparr>concurrency := 1\<rparr>) e md ranks targets schedule st))
    \<and> (\<exists>schedule. all_finished (run_pool (cfg\<lparr>concurrency := N\<rparr>) e md ranks targets schedule st'))
    \<and> (\<forall>sch sch'.
          all_finished (run_pool (cfg\<lparr>concurrency := 1\<rparr>) e md ranks targets sch st)
          \<and> all_finished (run_pool (cfg\<lparr>concurrency := N\<rparr>) e md ranks targets sch' st') \<longrightarrow>
          set (results (run_pool (cfg\<lparr>concurrency := 1\<rparr>) e md ranks targets sch st))
            = set (results (run_pool (cfg\<lparr>concurrency := N\<rparr>) e md ranks targets sch' st'))
          \<and> mset (results (run_pool (cfg\<lparr>concurrency := 1\<rparr>) e md ranks targets sch st))
            = mset (results (run_pool (cfg\<lparr>concurrency := N\<rparr>) e md ranks targets sch' st')))
    \<and> (\<forall>c schedule. 0 < c
          \<and> all_finished (run_pool (cfg\<lparr>concurrency := c\<rparr>) e md ranks targets schedule st) \<longrightarrow>
          claimed (run_pool (cfg\<lparr>concurrency := c\<rparr>) e md ranks targets schedule st)
            = [0..<length targets]
          \<and> completed (run_pool (cfg\<lparr>concurrency := c\<rparr>) e md ranks targets schedule st)
            = length targets)"
proof (intro conjI allI impI)
  show "\<exists>schedule. all_finished (run_pool (cfg\<lparr>concurrency := 1\<rparr>) e md ranks targets schedule st)"
    by (rule run_pool_finishes)
  show "\<exists>schedule. all_finished (run_pool (cfg\<lparr>concurrency := N\<rparr>) e md ranks targets schedule st')"
    by (rule run_pool_finishes)
next
  fix sch sch'
  assume fin: "all_finished (run_pool (cfg\<lparr>concurrency := 1\<rparr>) e md ranks targets sch st)
     \<and> all_finished (run_pool (cfg\<lparr>concurrency := N\<rparr>) e md ranks targets sch' st')"
  have N: "0 < N" using assms(4) by simp
  show m: "mset (results (run_pool (cfg\<lparr>concurrency := 1\<rparr>) e md ranks targets sch st))
            = mset (results (run_pool (cfg\<lparr>concurrency := N\<rparr>) e md ranks targets sch' st'))"
    using pool_outcome(1) [OF assms(1,2) zero_less_one] pool_outcome(1) [OF assms(1,3) N] fin
    by simp
  show "set (results (run_pool (cfg\<lparr>concurrency := 1\<rparr>) e md ranks targets sch st))
            = set (results (run_pool (cfg\<lparr>concurrency := N\<rparr>) e md ranks targets sch' st'))"
    using m by (rule mset_eq_setD)
next
  fix c schedule
  assume "0 < c \<and> all_finished (run_pool (cfg\<lparr>concurrency := c\<rparr>) e md ranks targets schedule st)"
  then show "claimed (run_pool (cfg\<lparr>concurrency := c\<rparr>) e md ranks targets schedule st)
            = [0..<length targets]"
    and "completed (run_pool (cfg\<lparr>concurrency := c\<rparr>) e md ranks targets schedule st)
            = length targets"
    using pool_outcome(2,3) [OF assms(1,2)] by blast+
qed

theorem concurrency_independent_witness:
  "fixed_dataset example_env \<and> cache_agrees CONFIG example_env empty_kstate \<and> (1 :: nat) < 3
   \<and> all_finished (run_pool (CONFIG\<lparr>concurrency := 1\<rparr>) example_env example_md
        (rankMap example_feed) [''XRPUSDT'', ''ETHUSDT'', ''BTCUSDT'', ''DOGEUSDT'']
        [0, 0, 0, 0, 0, 0, 0, 0, 0, 0, 0, 0, 0, 0, 0, 0, 0, 0] empty_kstate)
   \<and> all_finished (run_pool (CONFIG\<lparr>concurrency := 3\<rparr>) example_env example_md
        (rankMap example_feed) [''XRPUSDT'', ''ETHUSDT'', ''BTCUSDT'', ''DOGEUSDT'']
        [2, 1, 0, 2, 1, 0, 2, 1, 0, 2, 1, 0, 2, 1, 0, 2, 1, 0, 2, 1, 0, 2, 1, 0]
        empty_kstate)
   \<and> map symbol (results (run_pool (CONFIG\<lparr>concurrency := 1\<rparr>) example_env example_md
        (rankMap example_feed) [''XRPUSDT'', ''ETHUSDT'', ''BTCUSDT'', ''DOGEUSDT'']
        [0, 0, 0, 0, 0, 0, 0, 0, 0, 0, 0, 0, 0, 0, 0, 0, 0, 0] empty_kstate))
      = [''ETHUSDT'', ''BTCUSDT'']
   \<and> map symbol (results (run_pool (CONFIG\<lparr>concurrency := 3\<rparr>) example_env example_md
        (rankMap example_feed) [''XRPUSDT'', ''ETHUSDT'', ''BTCUSDT'', ''DOGEUSDT'']
        [2, 1, 0, 2, 1, 0, 2, 1, 0, 2, 1, 0, 2, 1, 0, 2, 1, 0, 2, 1, 0, 2, 1, 0]
        empty_kstate))
      = [''BTCUSDT'', ''ETHUSDT'']
   \<and> set (results (run_pool (CONFIG\<lparr>concurrency := 1\<rparr>) example_env example_md
        (rankMap example_feed) [''XRPUSDT'', ''ETHUSDT'', ''BTCUSDT'', ''DOGEUSDT'']
        [0, 0, 0, 0, 0, 0, 0, 0, 0, 0, 0, 0, 0, 0, 0, 0, 0, 0] empty_kstate))
      = set (results (run_pool (CONFIG\<lparr>concurrency := 3\<rparr>) example_env example_md
        (rankMap example_feed) [''XRPUSDT'', ''ETHUSDT'', ''BTCUSDT'', ''DOGEUSDT'']
        [2, 1, 0, 2, 1, 0, 2, 1, 0, 2, 1, 0, 2, 1, 0, 2, 1, 0, 2, 1, 0, 2, 1, 0]
        empty_kstate))
   \<and> claimed (run_pool (CONFIG\<lparr>concurrency := 3\<rparr>) example_env example_md
        (rankMap example_feed) [''XRPUSDT'', ''ETHUSDT'', ''BTCUSDT'', ''DOGEUSDT'']
        [2, 1, 0, 2, 1, 0, 2, 1, 0, 2, 1, 0, 2, 1, 0, 2, 1, 0, 2, 1, 0, 2, 1, 0]
        empty_kstate)
      = [0, 1, 2, 3]"
proof -
  let ?one = "run_pool (CONFIG\<lparr>concurrency := 1\<rparr>) example_env example_md
        (rankMap example_feed) [''XRPUSDT'', ''ETHUSDT'', ''BTCUSDT'', ''DOGEUSDT'']
        [0, 0, 0, 0, 0, 0, 0, 0, 0, 0, 0, 0, 0, 0, 0, 0, 0, 0] empty_kstate"
  let ?three = "run_pool (CONFIG\<lparr>concurrency := 3\<rparr>) example_env example_md
        (rankMap example_feed) [''XRPUSDT'', ''ETHUSDT'', ''BTCUSDT'', ''DOGEUSDT'']
        [2, 1, 0, 2, 1, 0, 2, 1, 0, 2, 1, 0, 2, 1, 0, 2, 1, 0, 2, 1, 0, 2, 1, 0]
        empty_kstate"
  have n: "(1 :: nat) < 3" by simp
  have f1: "all_finished ?one" by code_simp
  have f3: "all_finished ?three" by code_simp
  have r1: "map symbol (results ?one) = [''ETHUSDT'', ''BTCUSDT'']" by code_simp
  have r3: "map symbol (results ?three) = [''BTCUSDT'', ''ETHUSDT'']" by code_simp
  have cl: "claimed ?three = [0, 1, 2, 3]" by code_simp
  have "set (results ?one) = set (results ?three)"
    using concurrency_independent [OF fixed_example agrees_empty agrees_empty n,
        of CONFIG example_md "rankMap example_feed"
          "[''XRPUSDT'', ''ETHUSDT'', ''BTCUSDT'', ''DOGEUSDT'']"]
      f1 f3
    by blast
  then show ?thesis using fixed_example agrees_empty n f1 f3 r1 r3 cl by blast
qed

section \<open>Properties of rank resolution\<close>


lemma js_replace_suffix:
  "\<forall>i<length bs. \<not> prefix pat (drop i (bs @ pat)) \<Longrightarrow> js_replace (bs @ pat) pat [] = bs"
proof (induction bs)
  case Nil
  then show ?case by (cases pat) auto
next
  case (Cons a bs)
  have "\<not> prefix pat ((a # bs) @ pat)" using Cons.prems by force
  moreover have "\<forall>i<length bs. \<not> prefix pat (drop i (bs @ pat))"
    using Cons.prems by force
  ultimately show ?case using Cons.IH by simp
qed

lemma strip_suffix_append: "strip_suffix pat (bs @ pat) = bs"
  by (simp add: strip_suffix_def suffix_def)




section \<open>Properties of fetchProductData\<close>

text \<open>
  C10. When the fetch of the product feed throws and the cache holds an array, that array
  is returned, whatever its age, and the cache is left as it is. When a payload arrives
  that is unsuccessful or has no data (so the cache was not fresh), the empty list is
  returned, whether or not the cache holds an array, and the cache is left as it is.
\<close>

theorem fetchProductData_failure:
  "(products_data cache = Array items \<longrightarrow>
      fetchProductData cfg now Throws cache = (Array items, cache))
   \<and> (\<not> products_fresh cfg now cache \<and> \<not> (success \<and> d \<noteq> None) \<longrightarrow>
      fetchProductData cfg now (Payload success d) cache = (Array [], cache))"
  by (auto simp: fetchProductData_def split: option.splits)

theorem fetchProductData_failure_witness:
  "fetchProductData CONFIG 4000000 Throws
      \<lparr>products_data = Array example_feed, products_timestamp = 0\<rparr>
     = (Array example_feed, \<lparr>products_data = Array example_feed, products_timestamp = 0\<rparr>)
   \<and> \<not> products_fresh CONFIG 4000000 \<lparr>products_data = Array example_feed, products_timestamp = 0\<rparr>
   \<and> fetchProductData CONFIG 4000000 (Payload False (Some []))
      \<lparr>products_data = Array example_feed, products_timestamp = 0\<rparr>
     = (Array [], \<lparr>products_data = Array example_feed, products_timestamp = 0\<rparr>)"
  using fetchProductData_failure [of "\<lparr>products_data = Array example_feed, products_timestamp = 0\<rparr>"
      example_feed CONFIG 4000000 False "Some []"]
  by (simp add: products_fresh_def CONFIG_def)

theorem fetchProductData_stale_counterexample:
  "\<not> products_fresh CONFIG 4000000 \<lparr>products_data = Array example_feed, products_timestamp = 0\<rparr>
   \<and> fst (fetchProductData CONFIG 4000000 (Payload False None)
        \<lparr>products_data = Array example_feed, products_timestamp = 0\<rparr>) = Array []
   \<and> Array example_feed \<noteq> (Array [] :: product js_data)"
  by (simp add: fetchProductData_def products_fresh_def CONFIG_def example_feed_def)

text \<open>
  Before the first successful fetch the cache holds the object \<open>{}\<close>; a fetch that throws
  then returns this object, which is not an array, and \<open>updateData\<close> ends in the TypeError
  of \<open>productList.forEach\<close> without rendering.
\<close>

lemma fetchProductData_never_cached:
  "fetchProductData cfg now Throws \<lparr>products_data = EmptyObject, products_timestamp = 0\<rparr>
     = (EmptyObject, \<lparr>products_data = EmptyObject, products_timestamp = 0\<rparr>)"
  by (simp add: fetchProductData_def products_fresh_def)

lemma updateData_not_array:
  "productList md = EmptyObject \<Longrightarrow> updateData cfg e md schedule st = Some (Inl TypeError)"
  by (simp add: updateData_def)


end
